theory Spec2Isabelle
  imports Main "HOL-Library.AList"
begin

section \<open>Common data structures and error values\<close>

text \<open>
  The compiler of \<^verbatim>\<open>katappa_compiler.py\<close> raises \<^verbatim>\<open>CompilationError(message, line)\<close>
  on purpose, and the list and dictionary accesses of its generator can raise Python's
  \<^verbatim>\<open>IndexError\<close> and \<^verbatim>\<open>KeyError\<close>. Every raise is a value here; the built-in exceptions
  carry the text Python gives them.
\<close>

datatype error =
    CompilationError string nat
  | IndexError string
  | KeyError string

datatype category =
    Variable | NumericLiteral | StringLiteral
  | Type | Mutability | Control | Io | Operator | Delimiter

record PstRow =
  lexeme :: string
  category :: category
  line :: nat
  mem_location :: "string option"

text \<open>\<^verbatim>\<open>PstRow.__init__\<close>: the storage location starts as \<^verbatim>\<open>None\<close>.\<close>

definition PstRow_init :: "string \<Rightarrow> category \<Rightarrow> nat \<Rightarrow> PstRow" where
  "PstRow_init lx cat ln =
     \<lparr>lexeme = lx, category = cat, line = ln, mem_location = None\<rparr>"

record Compiler =
  source_code :: string
  tokens :: "(string \<times> nat) list"
  pst :: "PstRow list"
  symbol_table :: "(string \<times> PstRow) list"
  string_literals :: "(string \<times> string) list"
  stack_size :: nat
  label_count :: nat
  loop_end_stack :: "string list"

text \<open>\<^verbatim>\<open>Compiler.__init__\<close>: every run starts from empty tables and counters at zero.\<close>

definition Compiler_init :: "string \<Rightarrow> Compiler" where
  "Compiler_init src =
     \<lparr>source_code = src, tokens = [], pst = [], symbol_table = [],
      string_literals = [], stack_size = 0, label_count = 0, loop_end_stack = []\<rparr>"

subsection \<open>Text formatting\<close>

definition digit_char :: "nat \<Rightarrow> char" where
  "digit_char d = char_of (48 + d)"

text \<open>Python's \<^verbatim>\<open>str(n)\<close> for a non-negative integer, as an f-string renders it.\<close>

fun str_nat :: "nat \<Rightarrow> string" where
  "str_nat n = (if n < 10 then [digit_char n]
                else str_nat (n div 10) @ [digit_char (n mod 10)])"

declare str_nat.simps [simp del]

text \<open>An f-string field holding a storage location, which is a string or \<^verbatim>\<open>None\<close>.\<close>

definition fmt_loc :: "string option \<Rightarrow> string" where
  "fmt_loc m = (case m of None \<Rightarrow> ''None'' | Some s \<Rightarrow> s)"

text \<open>\<^verbatim>\<open>"\n".join(lines)\<close>\<close>

fun join_lines :: "string list \<Rightarrow> string" where
  "join_lines [] = []"
| "join_lines [l] = l"
| "join_lines (l # m # ls) = l @ [CHR 0x0A] @ join_lines (m # ls)"

text \<open>\<^verbatim>\<open>xs[i]\<close> for an index that is never negative: out of range raises.\<close>

definition get_row :: "'a list \<Rightarrow> nat \<Rightarrow> error + 'a" where
  "get_row xs i =
     (if i < length xs then Inr (xs ! i) else Inl (IndexError ''list index out of range''))"

text \<open>\<^verbatim>\<open>xs[a:b]\<close> for bounds that are never negative: a slice never raises.\<close>

definition slice :: "'a list \<Rightarrow> nat \<Rightarrow> nat \<Rightarrow> 'a list" where
  "slice xs a b = take (b - a) (drop a xs)"

text \<open>\<^verbatim>\<open>_get_unique_label\<close>: the counter is incremented first, then formatted.\<close>

definition get_unique_label :: "string \<Rightarrow> Compiler \<Rightarrow> string \<times> Compiler" where
  "get_unique_label prefix c =
     (''.L_'' @ prefix @ ''_'' @ str_nat (label_count c + 1),
      c\<lparr>label_count := label_count c + 1\<rparr>)"

section \<open>Language definition\<close>

definition KEYWORDS :: "(string \<times> category) list" where
  "KEYWORDS =
     [(''num'', Type), (''let'', Mutability), (''fix'', Mutability),
      (''when'', Control), (''other'', Control), (''loop'', Control), (''stop'', Control),
      (''print'', Io),
      ('':'', Delimiter), (''='', Operator), (''+'', Operator), (''-'', Operator),
      (''*'', Operator), (''/'', Operator), (''=='', Operator), (''!='', Operator),
      (''>'', Operator), (''<'', Operator), (''>='', Operator), (''<='', Operator),
      (''{'', Delimiter), (''}'', Delimiter), ('';'', Delimiter)]"

section \<open>Stage 1: tokenization\<close>

text \<open>
  Characters are code points below 256. The classes are those of Python's \<^verbatim>\<open>re\<close> on
  \<^verbatim>\<open>str\<close> patterns: \<^verbatim>\<open>\d\<close> is a decimal digit, \<^verbatim>\<open>\s\<close> is Unicode white space, and
  \<^verbatim>\<open>.\<close> is anything but a line feed.
\<close>

definition re_digit :: "char \<Rightarrow> bool" where
  "re_digit c = (let n = (of_char c :: nat) in 48 \<le> n \<and> n \<le> 57)"

definition re_alpha :: "char \<Rightarrow> bool" where
  "re_alpha c = (let n = (of_char c :: nat) in (65 \<le> n \<and> n \<le> 90) \<or> (97 \<le> n \<and> n \<le> 122))"

definition re_word :: "char \<Rightarrow> bool" where
  "re_word c = (re_alpha c \<or> re_digit c \<or> c = CHR ''_'')"

definition re_space :: "char \<Rightarrow> bool" where
  "re_space c = (let n = (of_char c :: nat) in
     (9 \<le> n \<and> n \<le> 13) \<or> (28 \<le> n \<and> n \<le> 32) \<or> n = 133 \<or> n = 160)"

datatype tok_kind =
    TkStringLiteral | TkVariable | TkNumericLiteral | TkKeyword
  | TkOperator | TkDelimiter | TkWhitespace | TkComment | TkMismatch

text \<open>
  One match of the alternation \<^verbatim>\<open>tok_regex\<close> at the head of the remaining text: the first
  alternative that matches wins, each one greedy. The result is the group's name, the
  matched text and the text after it.
\<close>

fun match_token :: "string \<Rightarrow> (tok_kind \<times> string \<times> string) option" where
  "match_token [] = None"
| "match_token (c # cs) =
     (if c = CHR 0x22 \<and> CHR 0x22 \<in> set cs then
        Some (TkStringLiteral,
              c # takeWhile (\<lambda>d. d \<noteq> CHR 0x22) cs @ [CHR 0x22],
              tl (dropWhile (\<lambda>d. d \<noteq> CHR 0x22) cs))
      else if c = CHR ''.'' \<and> cs \<noteq> [] \<and> re_word (hd cs) then
        Some (TkVariable, c # takeWhile re_word cs, dropWhile re_word cs)
      else if c = CHR ''-'' \<and> cs \<noteq> [] \<and> re_digit (hd cs) then
        Some (TkNumericLiteral, c # takeWhile re_digit cs, dropWhile re_digit cs)
      else if re_digit c then
        Some (TkNumericLiteral, c # takeWhile re_digit cs, dropWhile re_digit cs)
      else if re_alpha c then
        Some (TkKeyword, c # takeWhile re_alpha cs, dropWhile re_alpha cs)
      else if c \<in> set ''=!><'' \<and> cs \<noteq> [] \<and> hd cs = CHR ''='' then
        Some (TkOperator, [c, CHR ''=''], tl cs)
      else if c \<in> set ''=+-*/><'' then Some (TkOperator, [c], cs)
      else if c \<in> set '':{};'' then Some (TkDelimiter, [c], cs)
      else if re_space c then
        Some (TkWhitespace, c # takeWhile re_space cs, dropWhile re_space cs)
      else if c = CHR ''#'' \<and> cs \<noteq> [] \<and> hd cs = CHR ''#'' then
        Some (TkComment, c # takeWhile (\<lambda>d. d \<noteq> CHR 0x0A) cs,
              dropWhile (\<lambda>d. d \<noteq> CHR 0x0A) cs)
      else Some (TkMismatch, [c], cs))"

lemma match_token_shorter:
  "match_token s = Some (k, v, rest) \<Longrightarrow> length rest < length s"
proof (cases s)
  case Nil
  then show "match_token s = Some (k, v, rest) \<Longrightarrow> length rest < length s" by simp
next
  case (Cons c cs)
  have dw: "\<And>P. length (dropWhile P cs) \<le> length cs"
    by (simp add: length_dropWhile_le)
  have tl_le: "\<And>xs :: string. length (tl xs) \<le> length xs" by simp
  have tdw: "\<And>P. length (tl (dropWhile P cs)) \<le> length cs"
    using dw tl_le order_trans by blast
  assume "match_token s = Some (k, v, rest)"
  then have "length rest \<le> length cs"
    using dw tdw tl_le [of cs] unfolding Cons match_token.simps
    by (auto split: if_splits)
  then show "length rest < length s" using Cons by simp
qed

definition count_nl :: "string \<Rightarrow> nat" where
  "count_nl v = length (filter (\<lambda>d. d = CHR 0x0A) v)"

text \<open>The loop of \<^verbatim>\<open>_tokenize\<close> over \<^verbatim>\<open>re.finditer\<close>, with the line counter.\<close>

function tokenize_loop :: "string \<Rightarrow> nat \<Rightarrow> (string \<times> nat) list \<Rightarrow> error + (string \<times> nat) list" where
  "tokenize_loop s line_num toks =
     (case match_token s of
        None \<Rightarrow> Inr toks
      | Some (kind, v, rest) \<Rightarrow>
          if kind = TkWhitespace \<or> kind = TkComment then
            tokenize_loop rest (line_num + count_nl v) toks
          else if kind = TkMismatch then
            Inl (CompilationError (''Unexpected character: '' @ [CHR 0x27] @ v @ [CHR 0x27]) line_num)
          else tokenize_loop rest (line_num + count_nl v) (toks @ [(v, line_num)]))"
  by pat_completeness auto
termination
  by (relation "measure (\<lambda>(s, _, _). length s)") (auto dest: match_token_shorter)

declare tokenize_loop.simps [simp del]

definition stage1_tokenize :: "Compiler \<Rightarrow> error + Compiler" where
  "stage1_tokenize c =
     (case tokenize_loop (source_code c) 1 (tokens c) of
        Inl e \<Rightarrow> Inl e
      | Inr toks \<Rightarrow> Inr (c\<lparr>tokens := toks\<rparr>))"

section \<open>Stage 2: categorization\<close>

text \<open>
  \<^verbatim>\<open>str.isdigit\<close>: a non-empty text of digit characters. Among the code points below
  256 these are the ten decimal digits and the superscripts one, two and three.
\<close>

definition py_isdigit_char :: "char \<Rightarrow> bool" where
  "py_isdigit_char c = (let n = (of_char c :: nat) in
     (48 \<le> n \<and> n \<le> 57) \<or> n = 178 \<or> n = 179 \<or> n = 185)"

definition isdigit :: "string \<Rightarrow> bool" where
  "isdigit s = (s \<noteq> [] \<and> list_all py_isdigit_char s)"

definition categorize :: "string \<Rightarrow> nat \<Rightarrow> error + category" where
  "categorize lx ln =
     (if lx \<noteq> [] \<and> hd lx = CHR ''.'' then Inr Variable
      else if isdigit lx \<or> (lx \<noteq> [] \<and> hd lx = CHR ''-'' \<and> isdigit (tl lx)) then Inr NumericLiteral
      else if lx \<noteq> [] \<and> hd lx = CHR 0x22 then Inr StringLiteral
      else (case map_of KEYWORDS lx of
              Some cat \<Rightarrow> Inr cat
            | None \<Rightarrow> Inl (CompilationError
                (''Unknown symbol '' @ [CHR 0x27] @ lx @ [CHR 0x27]) ln)))"

fun stage2_loop :: "(string \<times> nat) list \<Rightarrow> PstRow list \<Rightarrow> error + PstRow list" where
  "stage2_loop [] rows = Inr rows"
| "stage2_loop ((lx, ln) # toks) rows =
     (case categorize lx ln of
        Inl e \<Rightarrow> Inl e
      | Inr cat \<Rightarrow> stage2_loop toks (rows @ [PstRow_init lx cat ln]))"

definition stage2_categorize :: "Compiler \<Rightarrow> error + Compiler" where
  "stage2_categorize c =
     (case stage2_loop (tokens c) (pst c) of
        Inl e \<Rightarrow> Inl e
      | Inr rows \<Rightarrow> Inr (c\<lparr>pst := rows\<rparr>))"

section \<open>Stage 3: analysis\<close>

text \<open>
  The dictionaries \<^verbatim>\<open>symbol_table\<close> and \<^verbatim>\<open>string_literals\<close> are association lists in
  insertion order, which is the order Python iterates them in; \<open>AList.update\<close> replaces
  the value of a present key in place and appends an absent one.

  The \<^verbatim>\<open>while\<close> loop of \<^verbatim>\<open>_stage3_analyze\<close>. The slice \<^verbatim>\<open>self.pst[i+1:i+5]\<close> never
  raises; unpacking fewer than four rows raises \<^verbatim>\<open>ValueError\<close>, which the \<^verbatim>\<open>except\<close>
  clause turns into the "Incomplete" error.
\<close>

function stage3_loop :: "Compiler \<Rightarrow> nat \<Rightarrow> error + Compiler" where
  "stage3_loop c i =
     (if \<not> i < length (pst c) then Inr c
      else
        let row = pst c ! i in
        if category row = Mutability then
          (case slice (pst c) (i + 1) (i + 5) of
             [var, colon, type_kw, semi] \<Rightarrow>
               if \<not> (category var = Variable \<and> lexeme colon = '':''
                      \<and> category type_kw = Type \<and> lexeme semi = '';'') then
                 Inl (CompilationError ''Invalid variable declaration.'' (line row))
               else if map_of (symbol_table c) (lexeme var) \<noteq> None then
                 Inl (CompilationError
                   (''Variable '' @ [CHR 0x27] @ lexeme var @ [CHR 0x27] @ '' already declared.'')
                   (line var))
               else
                 let sz = stack_size c + 8;
                     var' = var\<lparr>mem_location := Some (''-'' @ str_nat sz @ ''(%rbp)'')\<rparr>
                 in stage3_loop
                      (c\<lparr>stack_size := sz,
                         pst := (pst c)[i + 1 := var'],
                         symbol_table := AList.update (lexeme var) var' (symbol_table c)\<rparr>)
                      (i + 4 + 1)
           | _ \<Rightarrow> Inl (CompilationError ''Incomplete variable declaration.'' (line row)))
        else if category row = StringLiteral then
          (if map_of (string_literals c) (lexeme row) = None then
             stage3_loop
               ((snd (get_unique_label ''STR'' c))
                  \<lparr>string_literals :=
                     AList.update (lexeme row) (fst (get_unique_label ''STR'' c))
                       (string_literals c)\<rparr>)
               (i + 1)
           else stage3_loop c (i + 1))
        else if category row = Variable then
          (case map_of (symbol_table c) (lexeme row) of
             None \<Rightarrow>
               Inl (CompilationError
                 (''Use of undeclared variable '' @ [CHR 0x27] @ lexeme row @ [CHR 0x27])
                 (line row))
           | Some entry \<Rightarrow>
               stage3_loop
                 (c\<lparr>pst := (pst c)[i := row\<lparr>mem_location := mem_location entry\<rparr>]\<rparr>)
                 (i + 1))
        else stage3_loop c (i + 1))"
  by pat_completeness auto
termination
  by (relation "measure (\<lambda>(c, i). length (pst c) - i)")
     (auto simp: get_unique_label_def)

declare stage3_loop.simps [simp del]

text \<open>\<^verbatim>\<open>_stage3_analyze\<close>: the loop, then the frame size rounded up to 16.\<close>

definition round_stack :: "Compiler \<Rightarrow> Compiler" where
  "round_stack c =
     (if stack_size c mod 16 \<noteq> 0
      then c\<lparr>stack_size := stack_size c + (16 - stack_size c mod 16)\<rparr>
      else c)"

definition stage3_analyze :: "Compiler \<Rightarrow> error + Compiler" where
  "stage3_analyze c =
     (case stage3_loop c 0 of
        Inl e \<Rightarrow> Inl e
      | Inr c' \<Rightarrow> Inr (round_stack c'))"

section \<open>Stage 4: code generation\<close>

subsection \<open>Assignment (the branch for a Variable followed by \<^verbatim>\<open>=\<close>)\<close>

definition op_map :: "(string \<times> string) list" where
  "op_map = [(''+'', ''addq''), (''-'', ''subq''), (''*'', ''imulq'')]"

text \<open>
  The lines of an arithmetic right-hand side \<^verbatim>\<open>val op operand2\<close>, once both rows are
  read. An operator that is neither in \<^verbatim>\<open>op_map\<close> nor \<^verbatim>\<open>/\<close> emits nothing between the
  loads and the store.
\<close>

definition gen_arith :: "PstRow \<Rightarrow> PstRow \<Rightarrow> PstRow \<Rightarrow> PstRow \<Rightarrow> error + string list" where
  "gen_arith row val op operand2 =
     (let load1 = [''    movq    '' @ fmt_loc (mem_location val) @ '', %rax''] in
      if category operand2 \<noteq> Variable \<and> category operand2 \<noteq> NumericLiteral then
        Inl (CompilationError ''Invalid right-hand side in arithmetic expression.'' (line op))
      else
        let load2 = (if category operand2 = Variable
                     then [''    movq    '' @ fmt_loc (mem_location operand2) @ '', %rbx'']
                     else []);
            reg_or_imm = (if category operand2 = Variable then ''%rbx''
                          else ''$'' @ lexeme operand2);
            arith = (case map_of op_map (lexeme op) of
                       Some mnemonic \<Rightarrow> [''    '' @ mnemonic @ ''   '' @ reg_or_imm @ '', %rax'']
                     | None \<Rightarrow>
                         if lexeme op = ''/'' then
                           (if category operand2 = NumericLiteral
                            then [''    movq $'' @ lexeme operand2 @ '', %rbx'']
                            else [])
                           @ [''    cqto'', ''    idivq   %rbx'']
                         else [])
        in Inr (load1 @ load2 @ arith
                @ [''    movq    %rax, '' @ fmt_loc (mem_location row)]))"

text \<open>The whole assignment branch: the emitted lines and the new value of \<^verbatim>\<open>i\<close>.\<close>

definition gen_assignment :: "PstRow list \<Rightarrow> nat \<Rightarrow> error + (string list \<times> nat)" where
  "gen_assignment block i =
     (let row = block ! i in
      case get_row block (i + 2) of
        Inl e \<Rightarrow> Inl e
      | Inr val \<Rightarrow>
          let comment = [CHR 0x0A] @ ''    # Katappa: '' @ lexeme row @ '' = ...'' in
          if category val = NumericLiteral then
            Inr ([comment,
                  ''    movq    $'' @ lexeme val @ '', '' @ fmt_loc (mem_location row)],
                 i + 3)
          else if category val = Variable \<and> i + 3 < length block
                  \<and> category (block ! (i + 3)) = Operator then
            (case get_row block (i + 4) of
               Inl e \<Rightarrow> Inl e
             | Inr operand2 \<Rightarrow>
                 (case gen_arith row val (block ! (i + 3)) operand2 of
                    Inl e \<Rightarrow> Inl e
                  | Inr ls \<Rightarrow> Inr (comment # ls, i + 5)))
          else Inl (CompilationError ''Invalid assignment expression.'' (line row)))"

subsection \<open>Print\<close>

definition gen_print :: "Compiler \<Rightarrow> PstRow list \<Rightarrow> nat \<Rightarrow> error + string list" where
  "gen_print c block i =
     (case get_row block (i + 1) of
        Inl e \<Rightarrow> Inl e
      | Inr val \<Rightarrow>
          let comment = [CHR 0x0A] @ ''    # Katappa: print '' @ lexeme val @ '';'';
              call = [''    subq    $32, %rsp'', ''    movq    $0, %rax'',
                      ''    call    printf'', ''    addq    $32, %rsp'']
          in
          if category val = Variable then
            Inr ([comment, ''    leaq    .LC_NUM_FMT(%rip), %rcx'',
                  ''    movq    '' @ fmt_loc (mem_location val) @ '', %rdx''] @ call)
          else if category val = StringLiteral then
            (case map_of (string_literals c) (lexeme val) of
               None \<Rightarrow> Inl (KeyError (lexeme val))
             | Some label \<Rightarrow>
                 Inr ([comment, ''    leaq    '' @ label @ ''(%rip), %rcx''] @ call))
          else Inr (comment # call))"

subsection \<open>The head of a conditional\<close>

definition jump_map :: "(string \<times> string) list" where
  "jump_map = [(''=='', ''jne''), (''!='', ''je''), (''>'', ''jle''),
               (''<'', ''jge''), (''>='', ''jl''), (''<='', ''jg'')]"

text \<open>
  The three rows after \<^verbatim>\<open>when\<close> and the four lines they give: the comment, the load of
  the first operand, the comparison, and the branch to the else-label.
\<close>

definition gen_when_header :: "PstRow list \<Rightarrow> nat \<Rightarrow> string \<Rightarrow> error + string list" where
  "gen_when_header block i else_label =
     (case get_row block (i + 1) of
        Inl e \<Rightarrow> Inl e
      | Inr var1 \<Rightarrow>
     (case get_row block (i + 2) of
        Inl e \<Rightarrow> Inl e
      | Inr op \<Rightarrow>
     (case get_row block (i + 3) of
        Inl e \<Rightarrow> Inl e
      | Inr operand2 \<Rightarrow>
          let comment = [CHR 0x0A] @ ''    # Katappa: when '' @ lexeme var1 @ '' ''
                          @ lexeme op @ '' '' @ lexeme operand2 @ '' {...}'';
              load = ''    movq    '' @ fmt_loc (mem_location var1) @ '', %rax''
          in
          if category operand2 \<noteq> Variable \<and> category operand2 \<noteq> NumericLiteral then
            Inl (CompilationError ''Invalid right-hand side in when condition.'' (line op))
          else
            let cmp = (if category operand2 = Variable
                       then ''    cmpq    '' @ fmt_loc (mem_location operand2) @ '', %rax''
                       else ''    cmpq    $'' @ lexeme operand2 @ '', %rax'')
            in
            (case map_of jump_map (lexeme op) of
               None \<Rightarrow> Inl (KeyError (lexeme op))
             | Some jump \<Rightarrow>
                 Inr [comment, load, cmp, ''    '' @ jump @ '' '' @ else_label]))))"

subsection \<open>Block boundary detection\<close>

text \<open>
  The brace-counting \<^verbatim>\<open>while\<close> loop, which the source repeats for \<^verbatim>\<open>when\<close>, \<^verbatim>\<open>other\<close>
  and \<^verbatim>\<open>loop\<close>: it returns the index after the closing brace. When the range ends
  first, the error reads the line of row \<^verbatim>\<open>block_start - 1\<close>, which may itself be out of
  range.
\<close>

function scan_braces :: "PstRow list \<Rightarrow> nat \<Rightarrow> nat \<Rightarrow> nat \<Rightarrow> error + nat" where
  "scan_braces block block_start i brace_count =
     (if brace_count > 0 then
        (if i \<ge> length block then
           (case get_row block (block_start - 1) of
              Inl e \<Rightarrow> Inl e
            | Inr r \<Rightarrow> Inl (CompilationError (''Unmatched '' @ [CHR 0x27] @ ''{''
                               @ [CHR 0x27] @ '' bracket.'') (line r)))
         else scan_braces block block_start (i + 1)
                (if lexeme (block ! i) = ''{'' then brace_count + 1
                 else if lexeme (block ! i) = ''}'' then brace_count - 1
                 else brace_count))
      else Inr i)"
  by pat_completeness auto
termination
  by (relation "measure (\<lambda>(block, bs, i, n). length block - i)") auto

declare scan_braces.simps [simp del]

lemma scan_braces_ge:
  "scan_braces block bs i n = Inr j \<Longrightarrow> i \<le> j"
proof (induction block bs i n rule: scan_braces.induct)
  case (1 block block_start i brace_count)
  show ?case
  proof (cases "brace_count > 0 \<and> i < length block")
    case True
    with "1.prems" have "scan_braces block block_start (i + 1)
                (if lexeme (block ! i) = ''{'' then brace_count + 1
                 else if lexeme (block ! i) = ''}'' then brace_count - 1
                 else brace_count) = Inr j"
      by (subst (asm) scan_braces.simps) simp
    with "1.IH" True have "i + 1 \<le> j" by simp
    then show ?thesis by simp
  next
    case False
    with "1.prems" show ?thesis
      by (subst (asm) scan_braces.simps) (auto split: if_splits sum.splits)
  qed
qed

lemma gen_assignment_advance:
  "gen_assignment block i = Inr (ls, i') \<Longrightarrow> i < i'"
  by (auto simp: gen_assignment_def Let_def split: sum.splits if_splits)

lemma slice_length_less:
  "i < length block \<Longrightarrow> 0 < a \<Longrightarrow> length (slice block a b) < length block"
  by (simp add: slice_def)

subsection \<open>The recursive generator\<close>

text \<open>
  \<^verbatim>\<open>_generate_assembly_for_block\<close>, as its \<^verbatim>\<open>while\<close> loop: \<open>i\<close> is the cursor and \<open>asm\<close>
  the lines emitted so far in this block; the call on a sub-block starts again at
  cursor 0 with no lines. The compiler object is threaded through for the label counter
  and the loop-label stack. \<^verbatim>\<open>list.pop()\<close> on an empty list raises.
\<close>

function generate_block ::
  "Compiler \<Rightarrow> PstRow list \<Rightarrow> nat \<Rightarrow> string list \<Rightarrow> error + (string list \<times> Compiler)" where
  "generate_block c block i asm =
     (if \<not> i < length block then Inr (asm, c)
      else
        let row = block ! i in
        if category row = Mutability then generate_block c block (i + 5) asm
        else if category row = Variable \<and> i + 1 < length block
                \<and> lexeme (block ! (i + 1)) = ''='' then
          (case gen_assignment block i of
             Inl e \<Rightarrow> Inl e
           | Inr (ls, i') \<Rightarrow> generate_block c block i' (asm @ ls))
        else if lexeme row = ''print'' then
          (case gen_print c block i of
             Inl e \<Rightarrow> Inl e
           | Inr ls \<Rightarrow> generate_block c block (i + 2) (asm @ ls))
        else if lexeme row = ''when'' then
          (let else_label = fst (get_unique_label ''ELSE'' c);
               c1 = snd (get_unique_label ''ELSE'' c);
               end_label = fst (get_unique_label ''END_WHEN'' c1);
               c2 = snd (get_unique_label ''END_WHEN'' c1)
           in
           case gen_when_header block i else_label of
             Inl e \<Rightarrow> Inl e
           | Inr header \<Rightarrow>
          (case scan_braces block (i + 5) (i + 5) 1 of
             Inl e \<Rightarrow> Inl e
           | Inr j \<Rightarrow>
          (case generate_block c2 (slice block (i + 5) (j - 1)) 0 [] of
             Inl e \<Rightarrow> Inl e
           | Inr (when_asm, c3) \<Rightarrow>
               let asm1 = asm @ header @ when_asm
                            @ [''    jmp '' @ end_label, else_label @ '':'']
               in
               if j < length block \<and> lexeme (block ! j) = ''other'' then
                 (case scan_braces block (j + 2) (j + 2) 1 of
                    Inl e \<Rightarrow> Inl e
                  | Inr k \<Rightarrow>
                 (case generate_block c3 (slice block (j + 2) (k - 1)) 0 [] of
                    Inl e \<Rightarrow> Inl e
                  | Inr (other_asm, c4) \<Rightarrow>
                      generate_block c4 block k
                        (asm1 @ other_asm @ [end_label @ '':''])))
               else generate_block c3 block j (asm1 @ [end_label @ '':'']))))
        else if lexeme row = ''loop'' then
          (let start_label = fst (get_unique_label ''LOOP_START'' c);
               c1 = snd (get_unique_label ''LOOP_START'' c);
               end_label = fst (get_unique_label ''LOOP_END'' c1);
               c2 = snd (get_unique_label ''LOOP_END'' c1);
               c3 = c2\<lparr>loop_end_stack := loop_end_stack c2 @ [end_label]\<rparr>
           in
           case scan_braces block (i + 2) (i + 2) 1 of
             Inl e \<Rightarrow> Inl e
           | Inr j \<Rightarrow>
          (case generate_block c3 (slice block (i + 2) (j - 1)) 0 [] of
             Inl e \<Rightarrow> Inl e
           | Inr (loop_asm, c4) \<Rightarrow>
               if loop_end_stack c4 = [] then Inl (IndexError ''pop from empty list'')
               else generate_block
                      (c4\<lparr>loop_end_stack := butlast (loop_end_stack c4)\<rparr>) block j
                      (asm @ [[CHR 0x0A] @ start_label @ '':''] @ loop_asm
                         @ [''    jmp '' @ start_label, end_label @ '':''])))
        else if lexeme row = ''stop'' then
          (if loop_end_stack c = [] then
             Inl (CompilationError
               ([CHR 0x27] @ ''stop'' @ [CHR 0x27] @ '' can only be used inside a loop.'')
               (line row))
           else generate_block c block (i + 2)
                  (asm @ [''    jmp '' @ last (loop_end_stack c)]))
        else generate_block c block (i + 1) asm)"
  by pat_completeness auto
termination
proof (relation "measures [\<lambda>(c, block, i, asm). length block,
                           \<lambda>(c, block, i, asm). length block - i]",
       goal_cases)
  case 1
  show ?case by simp
next
  case 2
  then show ?case by simp
next
  case 3
  then show ?case by (auto dest: gen_assignment_advance)
next
  case 4
  then show ?case by simp
next
  case 5
  then show ?case by (simp add: slice_length_less)
next
  case 6
  then show ?case by (simp add: slice_length_less)
next
  case 7
  then show ?case by (auto dest!: scan_braces_ge)
next
  case 8
  then show ?case by (auto dest!: scan_braces_ge)
next
  case 9
  then show ?case by (simp add: slice_length_less)
next
  case 10
  then show ?case by (auto dest!: scan_braces_ge)
next
  case 11
  then show ?case by simp
next
  case 12
  then show ?case by simp
qed

declare generate_block.simps [simp del]

subsection \<open>The whole file\<close>

definition data_section :: "Compiler \<Rightarrow> string list" where
  "data_section c =
     (if string_literals c \<noteq> [] then
        ''.section .rodata''
          # map (\<lambda>(literal, label). label @ '': .string '' @ literal) (string_literals c)
      else [])
     @ [''.LC_NUM_FMT: .string '' @ [CHR 0x22] @ ''%lld'' @ [CHR 0x5C] @ ''n'' @ [CHR 0x22]]"

definition main_prologue :: "Compiler \<Rightarrow> string list" where
  "main_prologue c =
     [''.section .text'', ''.globl main'', [CHR 0x0A] @ ''main:'', ''    pushq   %rbp'',
      ''    movq    %rsp, %rbp'',
      (if stack_size c > 0 then ''    subq    $'' @ str_nat (stack_size c) @ '', %rsp''
       else [])]"

definition main_epilogue :: "string list" where
  "main_epilogue = [[CHR 0x0A] @ ''    movq    $0, %rax'', ''    leave'', ''    ret'']"

definition generate_toplevel_assembly :: "Compiler \<Rightarrow> error + (string \<times> Compiler)" where
  "generate_toplevel_assembly c =
     (case generate_block c (pst c) 0 [] of
        Inl e \<Rightarrow> Inl e
      | Inr (text_section, c') \<Rightarrow>
          Inr (join_lines (data_section c @ main_prologue c' @ text_section @ main_epilogue)
                 @ [CHR 0x0A], c'))"

text \<open>\<^verbatim>\<open>Compiler.compile\<close>: the four stages in order, stopping at the first error.\<close>

definition compile :: "Compiler \<Rightarrow> error + (string \<times> Compiler)" where
  "compile c =
     (case stage1_tokenize c of
        Inl e \<Rightarrow> Inl e
      | Inr c1 \<Rightarrow>
     (case stage2_categorize c1 of
        Inl e \<Rightarrow> Inl e
      | Inr c2 \<Rightarrow>
     (case stage3_analyze c2 of
        Inl e \<Rightarrow> Inl e
      | Inr c3 \<Rightarrow> generate_toplevel_assembly c3)))"

section \<open>Reasoning about the generator\<close>

text \<open>
  The kind of statement the generator sees at a cursor position: the conditions of its
  \<^verbatim>\<open>if\<close>/\<open>elif\<close> chain, in the source's order.
\<close>

datatype stmt = SDecl | SAssign | SPrint | SWhen | SLoop | SStop | SSkip

definition stmt_at :: "PstRow list \<Rightarrow> nat \<Rightarrow> stmt" where
  "stmt_at block i =
     (if category (block ! i) = Mutability then SDecl
      else if category (block ! i) = Variable \<and> i + 1 < length block
              \<and> lexeme (block ! (i + 1)) = ''='' then SAssign
      else if lexeme (block ! i) = ''print'' then SPrint
      else if lexeme (block ! i) = ''when'' then SWhen
      else if lexeme (block ! i) = ''loop'' then SLoop
      else if lexeme (block ! i) = ''stop'' then SStop
      else SSkip)"

abbreviation "c_when c \<equiv> snd (get_unique_label ''END_WHEN'' (snd (get_unique_label ''ELSE'' c)))"
abbreviation "else_label c \<equiv> fst (get_unique_label ''ELSE'' c)"
abbreviation "end_when_label c \<equiv> fst (get_unique_label ''END_WHEN'' (snd (get_unique_label ''ELSE'' c)))"
abbreviation "start_label c \<equiv> fst (get_unique_label ''LOOP_START'' c)"
abbreviation "end_loop_label c \<equiv> fst (get_unique_label ''LOOP_END'' (snd (get_unique_label ''LOOP_START'' c)))"
abbreviation "c_loop c \<equiv> (snd (get_unique_label ''LOOP_END'' (snd (get_unique_label ''LOOP_START'' c))))
   \<lparr>loop_end_stack :=
      loop_end_stack (snd (get_unique_label ''LOOP_END'' (snd (get_unique_label ''LOOP_START'' c))))
        @ [end_loop_label c]\<rparr>"

text \<open>The generator changes nothing of the compiler object but the label counter.\<close>

definition only_labels :: "Compiler \<Rightarrow> Compiler \<Rightarrow> bool" where
  "only_labels c c' = (c' = c\<lparr>label_count := label_count c'\<rparr> \<and> label_count c \<le> label_count c')"

text \<open>Lines put in front of the lines of a result.\<close>

definition prepend ::
  "string list \<Rightarrow> error + (string list \<times> Compiler) \<Rightarrow> error + (string list \<times> Compiler)" where
  "prepend a r = (case r of Inl e \<Rightarrow> Inl e | Inr (out, c') \<Rightarrow> Inr (a @ out, c'))"

text \<open>
  Example: the rows of \<^verbatim>\<open>when .x <= 1 { }\<close>, with \<^verbatim>\<open>.x\<close> resolved to the first slot.
\<close>

definition ex_rows_when_le :: "PstRow list" where
  "ex_rows_when_le =
     [PstRow_init ''when'' Control 1,
      (PstRow_init ''.x'' Variable 1)\<lparr>mem_location := Some ''-8(%rbp)''\<rparr>,
      PstRow_init ''<='' Operator 1, PstRow_init ''1'' NumericLiteral 1,
      PstRow_init ''{'' Delimiter 1, PstRow_init ''}'' Delimiter 1]"

text \<open>
  Example: the rows of \<^verbatim>\<open>when 5 == .x { }\<close> as the analysis leaves them: the literal has
  no storage location, \<^verbatim>\<open>.x\<close> is resolved to the first slot.
\<close>

definition ex_rows_when_5 :: "PstRow list" where
  "ex_rows_when_5 =
     [PstRow_init ''when'' Control 1, PstRow_init ''5'' NumericLiteral 1,
      PstRow_init ''=='' Operator 1,
      (PstRow_init ''.x'' Variable 1)\<lparr>mem_location := Some ''-8(%rbp)''\<rparr>,
      PstRow_init ''{'' Delimiter 1, PstRow_init ''}'' Delimiter 1]"

text \<open>
  The control flow of the generator. A configuration is what one turn of the \<^verbatim>\<open>while\<close>
  loop of \<^verbatim>\<open>_generate_assembly_for_block\<close> starts from: the compiler object, the block,
  the cursor and the lines emitted so far. \<open>calls cfg p cfg'\<close> holds when the turn that
  starts from \<open>cfg\<close> leads to \<open>cfg'\<close>: either the next turn of the same loop, or the first
  turn of the recursive call on a sub-block. \<open>p\<close> is what that step appends to
  \<^verbatim>\<open>loop_end_stack\<close> and leaves there for \<open>cfg'\<close>: the end-label on entering the body of a
  \<^verbatim>\<open>loop\<close>, nothing otherwise.
\<close>

type_synonym config = "Compiler \<times> PstRow list \<times> nat \<times> string list"

inductive calls :: "config \<Rightarrow> string list \<Rightarrow> config \<Rightarrow> bool" where
  Decl: "i < length block \<Longrightarrow> stmt_at block i = SDecl \<Longrightarrow>
     calls (c, block, i, asm) [] (c, block, i + 5, asm)"
| Assign: "i < length block \<Longrightarrow> stmt_at block i = SAssign \<Longrightarrow>
     gen_assignment block i = Inr (ls, i') \<Longrightarrow>
     calls (c, block, i, asm) [] (c, block, i', asm @ ls)"
| Print: "i < length block \<Longrightarrow> stmt_at block i = SPrint \<Longrightarrow>
     gen_print c block i = Inr ls \<Longrightarrow>
     calls (c, block, i, asm) [] (c, block, i + 2, asm @ ls)"
| WhenBody: "i < length block \<Longrightarrow> stmt_at block i = SWhen \<Longrightarrow>
     gen_when_header block i (else_label c) = Inr header \<Longrightarrow>
     scan_braces block (i + 5) (i + 5) 1 = Inr j \<Longrightarrow>
     calls (c, block, i, asm) [] (c_when c, slice block (i + 5) (j - 1), 0, [])"
| OtherBody: "i < length block \<Longrightarrow> stmt_at block i = SWhen \<Longrightarrow>
     gen_when_header block i (else_label c) = Inr header \<Longrightarrow>
     scan_braces block (i + 5) (i + 5) 1 = Inr j \<Longrightarrow>
     generate_block (c_when c) (slice block (i + 5) (j - 1)) 0 [] = Inr (when_asm, c3) \<Longrightarrow>
     j < length block \<Longrightarrow> lexeme (block ! j) = ''other'' \<Longrightarrow>
     scan_braces block (j + 2) (j + 2) 1 = Inr k \<Longrightarrow>
     calls (c, block, i, asm) [] (c3, slice block (j + 2) (k - 1), 0, [])"
| WhenNext: "i < length block \<Longrightarrow> stmt_at block i = SWhen \<Longrightarrow>
     gen_when_header block i (else_label c) = Inr header \<Longrightarrow>
     scan_braces block (i + 5) (i + 5) 1 = Inr j \<Longrightarrow>
     generate_block (c_when c) (slice block (i + 5) (j - 1)) 0 [] = Inr (when_asm, c3) \<Longrightarrow>
     \<not> (j < length block \<and> lexeme (block ! j) = ''other'') \<Longrightarrow>
     calls (c, block, i, asm) []
       (c3, block, j,
        asm @ header @ when_asm @ [''    jmp '' @ end_when_label c, else_label c @ '':'']
          @ [end_when_label c @ '':''])"
| OtherNext: "i < length block \<Longrightarrow> stmt_at block i = SWhen \<Longrightarrow>
     gen_when_header block i (else_label c) = Inr header \<Longrightarrow>
     scan_braces block (i + 5) (i + 5) 1 = Inr j \<Longrightarrow>
     generate_block (c_when c) (slice block (i + 5) (j - 1)) 0 [] = Inr (when_asm, c3) \<Longrightarrow>
     j < length block \<Longrightarrow> lexeme (block ! j) = ''other'' \<Longrightarrow>
     scan_braces block (j + 2) (j + 2) 1 = Inr k \<Longrightarrow>
     generate_block c3 (slice block (j + 2) (k - 1)) 0 [] = Inr (other_asm, c4) \<Longrightarrow>
     calls (c, block, i, asm) []
       (c4, block, k,
        asm @ header @ when_asm @ [''    jmp '' @ end_when_label c, else_label c @ '':'']
          @ other_asm @ [end_when_label c @ '':''])"
| LoopBody: "i < length block \<Longrightarrow> stmt_at block i = SLoop \<Longrightarrow>
     scan_braces block (i + 2) (i + 2) 1 = Inr j \<Longrightarrow>
     calls (c, block, i, asm) [end_loop_label c] (c_loop c, slice block (i + 2) (j - 1), 0, [])"
| LoopNext: "i < length block \<Longrightarrow> stmt_at block i = SLoop \<Longrightarrow>
     scan_braces block (i + 2) (i + 2) 1 = Inr j \<Longrightarrow>
     generate_block (c_loop c) (slice block (i + 2) (j - 1)) 0 [] = Inr (loop_asm, c4) \<Longrightarrow>
     loop_end_stack c4 \<noteq> [] \<Longrightarrow>
     calls (c, block, i, asm) []
       (c4\<lparr>loop_end_stack := butlast (loop_end_stack c4)\<rparr>, block, j,
        asm @ [[CHR 0x0A] @ start_label c @ '':''] @ loop_asm
          @ [''    jmp '' @ start_label c, end_loop_label c @ '':''])"
| Stop: "i < length block \<Longrightarrow> stmt_at block i = SStop \<Longrightarrow> loop_end_stack c \<noteq> [] \<Longrightarrow>
     calls (c, block, i, asm) []
       (c, block, i + 2, asm @ [''    jmp '' @ last (loop_end_stack c)])"
| Skip: "i < length block \<Longrightarrow> stmt_at block i = SSkip \<Longrightarrow>
     calls (c, block, i, asm) [] (c, block, i + 1, asm)"







lemma gen_end: "\<not> i < length block \<Longrightarrow> generate_block c block i asm = Inr (asm, c)"
  by (subst generate_block.simps) simp

lemma gen_decl:
  "i < length block \<Longrightarrow> stmt_at block i = SDecl \<Longrightarrow>
   generate_block c block i asm = generate_block c block (i + 5) asm"
  by (subst generate_block.simps) (auto simp add: stmt_at_def Let_def split: if_splits)

lemma gen_assign:
  "i < length block \<Longrightarrow> stmt_at block i = SAssign \<Longrightarrow>
   generate_block c block i asm =
     (case gen_assignment block i of
        Inl e \<Rightarrow> Inl e
      | Inr (ls, i') \<Rightarrow> generate_block c block i' (asm @ ls))"
  by (subst generate_block.simps) (auto simp add: stmt_at_def Let_def split: if_splits)

lemma gen_print_step:
  "i < length block \<Longrightarrow> stmt_at block i = SPrint \<Longrightarrow>
   generate_block c block i asm =
     (case gen_print c block i of
        Inl e \<Rightarrow> Inl e
      | Inr ls \<Rightarrow> generate_block c block (i + 2) (asm @ ls))"
  by (subst generate_block.simps) (auto simp add: stmt_at_def Let_def split: if_splits)

lemma gen_when:
  "i < length block \<Longrightarrow> stmt_at block i = SWhen \<Longrightarrow>
   generate_block c block i asm =
     (case gen_when_header block i (else_label c) of
        Inl e \<Rightarrow> Inl e
      | Inr header \<Rightarrow>
     (case scan_braces block (i + 5) (i + 5) 1 of
        Inl e \<Rightarrow> Inl e
      | Inr j \<Rightarrow>
     (case generate_block (c_when c) (slice block (i + 5) (j - 1)) 0 [] of
        Inl e \<Rightarrow> Inl e
      | Inr (when_asm, c3) \<Rightarrow>
          if j < length block \<and> lexeme (block ! j) = ''other'' then
            (case scan_braces block (j + 2) (j + 2) 1 of
               Inl e \<Rightarrow> Inl e
             | Inr k \<Rightarrow>
            (case generate_block c3 (slice block (j + 2) (k - 1)) 0 [] of
               Inl e \<Rightarrow> Inl e
             | Inr (other_asm, c4) \<Rightarrow>
                 generate_block c4 block k
                   (asm @ header @ when_asm
                      @ [''    jmp '' @ end_when_label c, else_label c @ '':'']
                      @ other_asm @ [end_when_label c @ '':''])))
          else generate_block c3 block j
                 (asm @ header @ when_asm
                    @ [''    jmp '' @ end_when_label c, else_label c @ '':'']
                    @ [end_when_label c @ '':'']))))"
  apply (subst generate_block.simps)
  apply (auto simp add: stmt_at_def Let_def split: if_splits sum.splits prod.splits)
  done

lemma gen_loop:
  "i < length block \<Longrightarrow> stmt_at block i = SLoop \<Longrightarrow>
   generate_block c block i asm =
     (case scan_braces block (i + 2) (i + 2) 1 of
        Inl e \<Rightarrow> Inl e
      | Inr j \<Rightarrow>
     (case generate_block (c_loop c) (slice block (i + 2) (j - 1)) 0 [] of
        Inl e \<Rightarrow> Inl e
      | Inr (loop_asm, c4) \<Rightarrow>
          if loop_end_stack c4 = [] then Inl (IndexError ''pop from empty list'')
          else generate_block (c4\<lparr>loop_end_stack := butlast (loop_end_stack c4)\<rparr>) block j
                 (asm @ [[CHR 0x0A] @ start_label c @ '':''] @ loop_asm
                    @ [''    jmp '' @ start_label c, end_loop_label c @ '':''])))"
  apply (subst generate_block.simps)
  apply (auto simp add: stmt_at_def Let_def split: if_splits sum.splits prod.splits)
  done

lemma gen_stop:
  "i < length block \<Longrightarrow> stmt_at block i = SStop \<Longrightarrow>
   generate_block c block i asm =
     (if loop_end_stack c = [] then
        Inl (CompilationError
          ([CHR 0x27] @ ''stop'' @ [CHR 0x27] @ '' can only be used inside a loop.'')
          (line (block ! i)))
      else generate_block c block (i + 2) (asm @ [''    jmp '' @ last (loop_end_stack c)]))"
  by (subst generate_block.simps) (auto simp add: stmt_at_def Let_def split: if_splits)

lemma gen_skip:
  "i < length block \<Longrightarrow> stmt_at block i = SSkip \<Longrightarrow>
   generate_block c block i asm = generate_block c block (i + 1) asm"
  by (subst generate_block.simps) (auto simp add: stmt_at_def Let_def split: if_splits)


lemma stmt_cases_induct [case_names End Decl Assign Print When Loop Stop Skip]:
  assumes End: "\<And>c block i asm. \<not> i < length block \<Longrightarrow> P c block i asm"
    and Decl: "\<And>c block i asm. i < length block \<Longrightarrow> stmt_at block i = SDecl \<Longrightarrow>
           P c block (i + 5) asm \<Longrightarrow> P c block i asm"
    and Assign: "\<And>c block i asm. i < length block \<Longrightarrow> stmt_at block i = SAssign \<Longrightarrow>
           (\<And>ls i'. gen_assignment block i = Inr (ls, i') \<Longrightarrow> P c block i' (asm @ ls)) \<Longrightarrow>
           P c block i asm"
    and Print: "\<And>c block i asm. i < length block \<Longrightarrow> stmt_at block i = SPrint \<Longrightarrow>
           (\<And>ls. gen_print c block i = Inr ls \<Longrightarrow> P c block (i + 2) (asm @ ls)) \<Longrightarrow>
           P c block i asm"
    and When: "\<And>c block i asm. i < length block \<Longrightarrow> stmt_at block i = SWhen \<Longrightarrow>
           (\<And>j. scan_braces block (i + 5) (i + 5) 1 = Inr j \<Longrightarrow>
                P (c_when c) (slice block (i + 5) (j - 1)) 0 []) \<Longrightarrow>
           (\<And>j k c3. scan_braces block (i + 5) (i + 5) 1 = Inr j \<Longrightarrow>
                scan_braces block (j + 2) (j + 2) 1 = Inr k \<Longrightarrow>
                P c3 (slice block (j + 2) (k - 1)) 0 []) \<Longrightarrow>
           (\<And>j c3 a. scan_braces block (i + 5) (i + 5) 1 = Inr j \<Longrightarrow> P c3 block j a) \<Longrightarrow>
           (\<And>j k c4 a. scan_braces block (i + 5) (i + 5) 1 = Inr j \<Longrightarrow>
                scan_braces block (j + 2) (j + 2) 1 = Inr k \<Longrightarrow> P c4 block k a) \<Longrightarrow>
           P c block i asm"
    and Loop: "\<And>c block i asm. i < length block \<Longrightarrow> stmt_at block i = SLoop \<Longrightarrow>
           (\<And>j. scan_braces block (i + 2) (i + 2) 1 = Inr j \<Longrightarrow>
                P (c_loop c) (slice block (i + 2) (j - 1)) 0 []) \<Longrightarrow>
           (\<And>j c4 a. scan_braces block (i + 2) (i + 2) 1 = Inr j \<Longrightarrow> P c4 block j a) \<Longrightarrow>
           P c block i asm"
    and Stop: "\<And>c block i asm. i < length block \<Longrightarrow> stmt_at block i = SStop \<Longrightarrow>
           (\<And>a. P c block (i + 2) a) \<Longrightarrow> P c block i asm"
    and Skip: "\<And>c block i asm. i < length block \<Longrightarrow> stmt_at block i = SSkip \<Longrightarrow>
           P c block (i + 1) asm \<Longrightarrow> P c block i asm"
  shows "P c block i asm"
proof -
  have "wf (measures [\<lambda>(c :: Compiler, block :: PstRow list, i :: nat, asm :: string list). length block,
                      \<lambda>(c, block, i, asm). length block - i])"
    by simp
  then show ?thesis
  proof (induction "(c, block, i, asm)" arbitrary: c block i asm rule: wf_induct_rule)
    case less
    have IH: "P c' b' i' a'"
      if "length b' < length block \<or> (length b' = length block \<and> length b' - i' < length block - i)"
      for c' b' i' a'
      by (rule less) (use that in auto)
    show ?case
    proof (cases "i < length block")
      case False
      then show ?thesis by (rule End)
    next
      case True
      have cont: "P c' block i' a'" if "i < i'" for c' i' a'
        using IH [of block i' c' a'] that True by simp
      have sub: "P c' (slice block a b) 0 a'" if "0 < a" for c' a b a'
        using IH [of "slice block a b" 0 c' a'] slice_length_less [OF True that] by simp
      show ?thesis
      proof (cases "stmt_at block i")
        case SDecl
        show ?thesis by (rule Decl [OF True SDecl]) (simp add: cont)
      next
        case SAssign
        show ?thesis
          by (rule Assign [OF True SAssign]) (auto dest: gen_assignment_advance intro: cont)
      next
        case SPrint
        show ?thesis by (rule Print [OF True SPrint]) (simp add: cont)
      next
        case SWhen
        show ?thesis
        proof (rule When [OF True SWhen], goal_cases)
          case (1 j)
          show ?case by (rule sub) simp
        next
          case (2 j k c3)
          show ?case by (rule sub) simp
        next
          case (3 j c3 a)
          then show ?case using scan_braces_ge [of block "i + 5" "i + 5" 1 j] by (intro cont) simp
        next
          case (4 j k c4 a)
          then show ?case
            using scan_braces_ge [of block "i + 5" "i + 5" 1 j]
                  scan_braces_ge [of block "j + 2" "j + 2" 1 k] by (intro cont) simp
        qed
      next
        case SLoop
        show ?thesis
        proof (rule Loop [OF True SLoop], goal_cases)
          case (1 j)
          show ?case by (rule sub) simp
        next
          case (2 j c4 a)
          then show ?case using scan_braces_ge [of block "i + 2" "i + 2" 1 j] by (intro cont) simp
        qed
      next
        case SStop
        show ?thesis by (rule Stop [OF True SStop]) (simp add: cont)
      next
        case SSkip
        show ?thesis by (rule Skip [OF True SSkip]) (simp add: cont)
      qed
    qed
  qed
qed

subsection \<open>Only the label counter changes\<close>

lemma gul_simps:
  "fst (get_unique_label p c) = ''.L_'' @ p @ ''_'' @ str_nat (label_count c + 1)"
  "snd (get_unique_label p c) = c\<lparr>label_count := label_count c + 1\<rparr>"
  by (simp_all add: get_unique_label_def)

lemma only_labels_refl [simp]: "only_labels c c"
  by (simp add: only_labels_def)

lemma only_labels_trans: "only_labels a b \<Longrightarrow> only_labels b c \<Longrightarrow> only_labels a c"
  unfolding only_labels_def
  by (metis (no_types, lifting) Compiler.surjective Compiler.update_convs(7) order_trans Compiler.select_convs)


lemma gen_when_InrE [consumes 3, case_names no_other other]:
  assumes "generate_block c block i asm = Inr (out, c')"
    and "i < length block" and "stmt_at block i = SWhen"
  obtains header j when_asm c3 where
      "gen_when_header block i (else_label c) = Inr header"
      "scan_braces block (i + 5) (i + 5) 1 = Inr j"
      "generate_block (c_when c) (slice block (i + 5) (j - 1)) 0 [] = Inr (when_asm, c3)"
      "\<not> (j < length block \<and> lexeme (block ! j) = ''other'')"
      "generate_block c3 block j
         (asm @ header @ when_asm @ [''    jmp '' @ end_when_label c, else_label c @ '':'']
            @ [end_when_label c @ '':'']) = Inr (out, c')"
  | header j when_asm c3 k other_asm c4 where
      "gen_when_header block i (else_label c) = Inr header"
      "scan_braces block (i + 5) (i + 5) 1 = Inr j"
      "generate_block (c_when c) (slice block (i + 5) (j - 1)) 0 [] = Inr (when_asm, c3)"
      "j < length block" "lexeme (block ! j) = ''other''"
      "scan_braces block (j + 2) (j + 2) 1 = Inr k"
      "generate_block c3 (slice block (j + 2) (k - 1)) 0 [] = Inr (other_asm, c4)"
      "generate_block c4 block k
         (asm @ header @ when_asm @ [''    jmp '' @ end_when_label c, else_label c @ '':'']
            @ other_asm @ [end_when_label c @ '':'']) = Inr (out, c')"
proof -
  note step = assms(1) [unfolded gen_when [OF assms(2,3)]]
  obtain header where h: "gen_when_header block i (else_label c) = Inr header"
    using step by (cases "gen_when_header block i (else_label c)") auto
  note step1 = step [unfolded h sum.case]
  obtain j where j: "scan_braces block (i + 5) (i + 5) 1 = Inr j"
    using step1 by (cases "scan_braces block (i + 5) (i + 5) 1") auto
  note step2 = step1 [unfolded j sum.case]
  obtain when_asm c3 where
    b: "generate_block (c_when c) (slice block (i + 5) (j - 1)) 0 [] = Inr (when_asm, c3)"
    using step2
    by (cases "generate_block (c_when c) (slice block (i + 5) (j - 1)) 0 []") auto
  note step3 = step2 [unfolded b sum.case prod.case]
  show thesis
  proof (cases "j < length block \<and> lexeme (block ! j) = ''other''")
    case False
    note step4 = step3 [unfolded if_not_P [OF False]]
    show thesis by (rule that(1) [OF h j b False step4])
  next
    case True
    note step4 = step3 [unfolded if_P [OF True]]
    obtain k where k: "scan_braces block (j + 2) (j + 2) 1 = Inr k"
      using step4 by (cases "scan_braces block (j + 2) (j + 2) 1") auto
    note step5 = step4 [unfolded k sum.case]
    obtain other_asm c4 where
      ob: "generate_block c3 (slice block (j + 2) (k - 1)) 0 [] = Inr (other_asm, c4)"
      using step5
      by (cases "generate_block c3 (slice block (j + 2) (k - 1)) 0 []") auto
    note step6 = step5 [unfolded ob sum.case prod.case]
    from True have t1: "j < length block" and t2: "lexeme (block ! j) = ''other''" by simp_all
    show thesis by (rule that(2) [OF h j b t1 t2 k ob step6])
  qed
qed

lemma gen_loop_InrE [consumes 3, case_names loop]:
  assumes "generate_block c block i asm = Inr (out, c')"
    and "i < length block" and "stmt_at block i = SLoop"
  obtains j loop_asm c4 where
      "scan_braces block (i + 2) (i + 2) 1 = Inr j"
      "generate_block (c_loop c) (slice block (i + 2) (j - 1)) 0 [] = Inr (loop_asm, c4)"
      "loop_end_stack c4 \<noteq> []"
      "generate_block (c4\<lparr>loop_end_stack := butlast (loop_end_stack c4)\<rparr>) block j
         (asm @ [[CHR 0x0A] @ start_label c @ '':''] @ loop_asm
            @ [''    jmp '' @ start_label c, end_loop_label c @ '':'']) = Inr (out, c')"
proof -
  note step = assms(1) [unfolded gen_loop [OF assms(2,3)]]
  obtain j where j: "scan_braces block (i + 2) (i + 2) 1 = Inr j"
    using step by (cases "scan_braces block (i + 2) (i + 2) 1") auto
  note step1 = step [unfolded j sum.case]
  obtain loop_asm c4 where
    b: "generate_block (c_loop c) (slice block (i + 2) (j - 1)) 0 [] = Inr (loop_asm, c4)"
    using step1
    by (cases "generate_block (c_loop c) (slice block (i + 2) (j - 1)) 0 []") auto
  note step2 = step1 [unfolded b sum.case prod.case]
  have ne: "loop_end_stack c4 \<noteq> []"
    using step2 by (auto split: if_splits)
  note step3 = step2 [unfolded if_not_P [OF ne]]
  show thesis by (rule that [OF j b ne step3])
qed

lemma generate_block_frame:
  "generate_block c block i asm = Inr (out, c') \<Longrightarrow> only_labels c c'"
proof (induction c block i asm arbitrary: out c' rule: stmt_cases_induct)
  case (End c block i asm)
  then show ?case by (simp add: gen_end)
next
  case (Decl c block i asm)
  then show ?case by (simp add: gen_decl)
next
  case (Assign c block i asm)
  then show ?case by (auto simp: gen_assign split: sum.splits)
next
  case (Print c block i asm)
  then show ?case by (auto simp: gen_print_step split: sum.splits)
next
  case (When c block i asm)
  have start: "only_labels c (c_when c)"
    by (simp add: only_labels_def gul_simps)
  from When.prems When.hyps(1,2) show ?case
  proof (cases rule: gen_when_InrE)
    case (no_other header j when_asm c3)
    from When.IH(1) [OF no_other(2,3)] When.IH(3) [OF no_other(2,5)] start
    show ?thesis by (blast intro: only_labels_trans)
  next
    case (other header j when_asm c3 k other_asm c4)
    from When.IH(1) [OF other(2,3)] When.IH(2) [OF other(2,6,7)]
      When.IH(4) [OF other(2,6,8)] start
    show ?thesis by (blast intro: only_labels_trans)
  qed
next
  case (Loop c block i asm)
  from Loop.prems Loop.hyps(1,2) show ?case
  proof (cases rule: gen_loop_InrE)
    case (loop j loop_asm c4)
    have body: "only_labels (c_loop c) c4" by (rule Loop.IH(1) [OF loop(1,2)])
    have rest: "only_labels (c4\<lparr>loop_end_stack := butlast (loop_end_stack c4)\<rparr>) c'"
      by (rule Loop.IH(2) [OF loop(1,4)])
    have "only_labels c (c4\<lparr>loop_end_stack := butlast (loop_end_stack c4)\<rparr>)"
      using body unfolding only_labels_def
      by (cases c, cases c4) (auto simp: gul_simps)
    then show ?thesis using rest by (blast intro: only_labels_trans)
  qed
next
  case (Stop c block i asm)
  then show ?case by (auto simp: gen_stop split: if_splits)
next
  case (Skip c block i asm)
  then show ?case by (simp add: gen_skip)
qed


section \<open>Stray tokens\<close>

text \<open>
  C10. A row at statement position that starts no declaration (its category is not
  Mutability), no assignment (it is not a Variable followed by \<^verbatim>\<open>=\<close>), and is none of
  \<^verbatim>\<open>print\<close>, \<^verbatim>\<open>when\<close>, \<^verbatim>\<open>loop\<close>, \<^verbatim>\<open>stop\<close>, is skipped: generating from it is the same as
  generating from the next row, with the same emitted lines and the same compiler
  object, so it raises nothing and emits nothing.
\<close>

theorem stray_token_skipped:
  assumes "i < length block"
    and "category (block ! i) \<noteq> Mutability"
    and "\<not> (category (block ! i) = Variable \<and> i + 1 < length block
              \<and> lexeme (block ! (i + 1)) = ''='')"
    and "lexeme (block ! i) \<noteq> ''print''" and "lexeme (block ! i) \<noteq> ''when''"
    and "lexeme (block ! i) \<noteq> ''loop''" and "lexeme (block ! i) \<noteq> ''stop''"
  shows "generate_block c block i asm = generate_block c block (i + 1) asm"
proof -
  from assms(2-7) have "stmt_at block i = SSkip"
    by (simp add: stmt_at_def)
  with assms(1) show ?thesis by (rule gen_skip)
qed

text \<open>
  A stray semicolon, a stray operator and an unmatched closing brace: the generator
  walks over all three and returns no lines.
\<close>

theorem stray_token_skipped_witness:
  "generate_block (Compiler_init [])
     [PstRow_init '';'' Delimiter 1, PstRow_init ''+'' Operator 1, PstRow_init ''}'' Delimiter 2] 0 []
   = Inr ([], Compiler_init [])"
proof -
  let ?b = "[PstRow_init '';'' Delimiter 1, PstRow_init ''+'' Operator 1,
             PstRow_init ''}'' Delimiter 2]"
  let ?c = "Compiler_init []"
  have "generate_block ?c ?b 0 [] = generate_block ?c ?b 1 []"
    using stray_token_skipped [of 0 ?b ?c "[]"] by (simp add: PstRow_init_def eval_nat_numeral)
  also have "\<dots> = generate_block ?c ?b 2 []"
    using stray_token_skipped [of 1 ?b ?c "[]"] by (simp add: PstRow_init_def eval_nat_numeral)
  also have "\<dots> = generate_block ?c ?b 3 []"
    using stray_token_skipped [of 2 ?b ?c "[]"] by (simp add: PstRow_init_def eval_nat_numeral)
  also have "\<dots> = Inr ([], ?c)"
    by (simp add: gen_end)
  finally show ?thesis .
qed

text \<open>The same three tokens as a source text: the file compiles to the bare frame.\<close>

lemma stray_tokens_compile:
  "compile (Compiler_init ''; + }'') =
     Inr (join_lines (data_section (Compiler_init ''; + }'')
                        @ main_prologue (Compiler_init ''; + }'') @ main_epilogue) @ [CHR 0x0A],
          (Compiler_init ''; + }'')\<lparr>tokens := [('';'', 1), (''+'', 1), (''}'', 1)],
             pst := [PstRow_init '';'' Delimiter 1, PstRow_init ''+'' Operator 1,
                     PstRow_init ''}'' Delimiter 1]\<rparr>)"
  by code_simp

section \<open>The lines emitted so far are only ever extended\<close>

lemma prepend_simps [simp]:
  "prepend a (Inl e) = Inl e"
  "prepend a (Inr (out, c')) = Inr (a @ out, c')"
  "prepend [] r = r"
  "prepend a (prepend b r) = prepend (a @ b) r"
  by (auto simp: prepend_def split: sum.splits)

lemma generate_block_acc_aux:
  fixes dummy :: "string list"
  shows "generate_block c block i a = prepend a (generate_block c block i [])"
proof (induction c block i dummy arbitrary: a rule: stmt_cases_induct)
  case (End c block i asm)
  then show ?case by (simp add: gen_end)
next
  case (Decl c block i asm)
  show ?case
    unfolding gen_decl [OF Decl.hyps] by (rule Decl.IH)
next
  case (Assign c block i asm)
  have tail: "generate_block c block i' (a @ X) = prepend a (generate_block c block i' X)"
    if "gen_assignment block i = Inr (ls, i')" for ls i' X
    using Assign.IH [OF that, of "a @ X"] Assign.IH [OF that, of X] by simp
  show ?case
    unfolding gen_assign [OF Assign.hyps]
    by (auto split: sum.splits simp: tail)
next
  case (Print c block i asm)
  have tail: "generate_block c block (i + 2) (a @ X) = prepend a (generate_block c block (i + 2) X)"
    if "gen_print c block i = Inr ls" for ls X
    using Print.IH [OF that, of "a @ X"] Print.IH [OF that, of X] by simp
  show ?case
    unfolding gen_print_step [OF Print.hyps]
    by (auto split: sum.splits simp: tail simp del: add_2_eq_Suc' add_2_eq_Suc)
next
  case (When c block i asm)
  have tail1: "generate_block c3 block j (a @ X) = prepend a (generate_block c3 block j X)"
    if "scan_braces block (i + 5) (i + 5) 1 = Inr j" for j c3 X
    using When.IH(3) [OF that, of c3 "a @ X"] When.IH(3) [OF that, of c3 X] by simp
  have tail2: "generate_block c4 block k (a @ X) = prepend a (generate_block c4 block k X)"
    if "scan_braces block (i + 5) (i + 5) 1 = Inr j" "scan_braces block (j + 2) (j + 2) 1 = Inr k"
    for j k c4 X
    using When.IH(4) [OF that, of c4 "a @ X"] When.IH(4) [OF that, of c4 X] by simp
  show ?case
    unfolding gen_when [OF When.hyps]
    by (auto split: sum.splits simp: tail1 tail2)
next
  case (Loop c block i asm)
  have tail: "generate_block c4 block j (a @ X) = prepend a (generate_block c4 block j X)"
    if "scan_braces block (i + 2) (i + 2) 1 = Inr j" for j c4 X
    using Loop.IH(2) [OF that, of c4 "a @ X"] Loop.IH(2) [OF that, of c4 X] by simp
  show ?case
    unfolding gen_loop [OF Loop.hyps]
    by (auto split: sum.splits simp: tail)
next
  case (Stop c block i asm)
  have tail: "generate_block c block (i + 2) (a @ X) = prepend a (generate_block c block (i + 2) X)"
    for X
    using Stop.IH [of "a @ X"] Stop.IH [of X] by simp
  show ?case
    unfolding gen_stop [OF Stop.hyps]
    by (auto simp: tail simp del: add_2_eq_Suc' add_2_eq_Suc)
next
  case (Skip c block i asm)
  show ?case
    unfolding gen_skip [OF Skip.hyps] by (rule Skip.IH)
qed

lemma generate_block_acc:
  "generate_block c block i a = prepend a (generate_block c block i [])"
  by (rule generate_block_acc_aux)

lemma generate_block_prefix:
  "generate_block c block i asm = Inr (out, c') \<Longrightarrow> \<exists>rest. out = asm @ rest"
  by (subst (asm) generate_block_acc) (auto simp: prepend_def split: sum.splits)


section \<open>Conditionals\<close>

lemma gen_when_header_Inr:
  assumes "gen_when_header block i lbl = Inr header"
  shows "i + 3 < length block"
    and "category (block ! (i + 3)) = Variable \<or> category (block ! (i + 3)) = NumericLiteral"
    and "\<exists>jump. map_of jump_map (lexeme (block ! (i + 2))) = Some jump \<and>
           header =
             [[CHR 0x0A] @ ''    # Katappa: when '' @ lexeme (block ! (i + 1)) @ '' ''
                @ lexeme (block ! (i + 2)) @ '' '' @ lexeme (block ! (i + 3)) @ '' {...}'',
              ''    movq    '' @ fmt_loc (mem_location (block ! (i + 1))) @ '', %rax'',
              (if category (block ! (i + 3)) = Variable
               then ''    cmpq    '' @ fmt_loc (mem_location (block ! (i + 3))) @ '', %rax''
               else ''    cmpq    $'' @ lexeme (block ! (i + 3)) @ '', %rax''),
              ''    '' @ jump @ '' '' @ lbl]"
  using assms
  by (auto simp: gen_when_header_def get_row_def Let_def split: if_splits option.splits)

lemma gen_when_header_ok:
  assumes "i + 3 < length block"
    and "category (block ! (i + 3)) = Variable \<or> category (block ! (i + 3)) = NumericLiteral"
    and "map_of jump_map (lexeme (block ! (i + 2))) = Some jump"
  shows "gen_when_header block i lbl =
           Inr [[CHR 0x0A] @ ''    # Katappa: when '' @ lexeme (block ! (i + 1)) @ '' ''
                  @ lexeme (block ! (i + 2)) @ '' '' @ lexeme (block ! (i + 3)) @ '' {...}'',
                ''    movq    '' @ fmt_loc (mem_location (block ! (i + 1))) @ '', %rax'',
                (if category (block ! (i + 3)) = Variable
                 then ''    cmpq    '' @ fmt_loc (mem_location (block ! (i + 3))) @ '', %rax''
                 else ''    cmpq    $'' @ lexeme (block ! (i + 3)) @ '', %rax''),
                ''    '' @ jump @ '' '' @ lbl]"
  using assms
  by (auto simp: gen_when_header_def get_row_def Let_def)

lemma stmt_at_when:
  "category (block ! i) = Control \<Longrightarrow> lexeme (block ! i) = ''when'' \<Longrightarrow> stmt_at block i = SWhen"
  by (simp add: stmt_at_def)

lemma gen_when_out:
  assumes "generate_block c block i asm = Inr (out, c')"
    and "i < length block" and "stmt_at block i = SWhen"
  shows "\<exists>header body rest. gen_when_header block i (else_label c) = Inr header \<and>
           out = asm @ header @ body @ [''    jmp '' @ end_when_label c, else_label c @ '':''] @ rest
           \<and> label_count c + 2 \<le> label_count c'"
  using assms
proof (cases rule: gen_when_InrE)
  case (no_other header j when_asm c3)
  from generate_block_prefix [OF no_other(5)] obtain rest where
    "out = (asm @ header @ when_asm @ [''    jmp '' @ end_when_label c, else_label c @ '':'']
              @ [end_when_label c @ '':'']) @ rest" by blast
  moreover have "label_count c + 2 \<le> label_count c'"
    using generate_block_frame [OF no_other(3)] generate_block_frame [OF no_other(5)]
    by (simp add: only_labels_def gul_simps)
  ultimately show ?thesis using no_other(1) by auto
next
  case (other header j when_asm c3 k other_asm c4)
  from generate_block_prefix [OF other(8)] obtain rest where
    "out = (asm @ header @ when_asm @ [''    jmp '' @ end_when_label c, else_label c @ '':'']
              @ other_asm @ [end_when_label c @ '':'']) @ rest" by blast
  moreover have "label_count c + 2 \<le> label_count c'"
    using generate_block_frame [OF other(3)] generate_block_frame [OF other(7)]
      generate_block_frame [OF other(8)]
    by (simp add: only_labels_def gul_simps)
  ultimately show ?thesis using other(1) by auto
qed

text \<open>
  The negated-branch table. When the generator succeeds on a block whose row \<open>i\<close> is
  \<^verbatim>\<open>when\<close>, the lines it adds start with the comment, the load of the first operand's
  storage location into \<^verbatim>\<open>%rax\<close>, the comparison with the second operand, and a
  conditional jump to the else-label \<^verbatim>\<open>.L_ELSE_n\<close>, where \<open>n\<close> is the label counter plus
  one; the else-label is placed after the body and the jump to the end-label. The jump
  is the negation of the comparator: \<^verbatim>\<open>==\<close> gives \<^verbatim>\<open>jne\<close>, \<^verbatim>\<open>!=\<close> gives \<^verbatim>\<open>je\<close>, \<^verbatim>\<open>>\<close> gives
  \<^verbatim>\<open>jle\<close>, \<^verbatim>\<open><\<close> gives \<^verbatim>\<open>jge\<close>, \<^verbatim>\<open>>=\<close> gives \<^verbatim>\<open>jl\<close> and \<^verbatim>\<open><=\<close> gives \<^verbatim>\<open>jg\<close>, and no other
  operator succeeds. Conversely each of the six comparators, with a Variable or
  NumericLiteral as second operand, gives a head of four lines ending in its jump.
\<close>

lemma when_branches_on_negation:
  assumes "i < length block"
    and "category (block ! i) = Control" and "lexeme (block ! i) = ''when''"
  shows "(\<forall>out c'. generate_block c block i asm = Inr (out, c') \<longrightarrow>
          (\<exists>jump body rest.
             (lexeme (block ! (i + 2)), jump) \<in>
                {(''=='', ''jne''), (''!='', ''je''), (''>'', ''jle''),
                 (''<'', ''jge''), (''>='', ''jl''), (''<='', ''jg'')}
           \<and> out = asm @
               [[CHR 0x0A] @ ''    # Katappa: when '' @ lexeme (block ! (i + 1)) @ '' ''
                  @ lexeme (block ! (i + 2)) @ '' '' @ lexeme (block ! (i + 3)) @ '' {...}'',
                ''    movq    '' @ fmt_loc (mem_location (block ! (i + 1))) @ '', %rax'',
                (if category (block ! (i + 3)) = Variable
                 then ''    cmpq    '' @ fmt_loc (mem_location (block ! (i + 3))) @ '', %rax''
                 else ''    cmpq    $'' @ lexeme (block ! (i + 3)) @ '', %rax''),
                ''    '' @ jump @ '' .L_ELSE_'' @ str_nat (label_count c + 1)]
               @ body
               @ [''    jmp .L_END_WHEN_'' @ str_nat (label_count c + 2),
                  ''.L_ELSE_'' @ str_nat (label_count c + 1) @ '':'']
               @ rest
           \<and> label_count c + 2 \<le> label_count c'))
       \<and> (\<forall>jump lbl.
            i + 3 < length block
            \<and> (category (block ! (i + 3)) = Variable \<or> category (block ! (i + 3)) = NumericLiteral)
            \<and> (lexeme (block ! (i + 2)), jump) \<in>
                {(''=='', ''jne''), (''!='', ''je''), (''>'', ''jle''),
                 (''<'', ''jge''), (''>='', ''jl''), (''<='', ''jg'')}
            \<longrightarrow> (\<exists>comment load cmp.
                   gen_when_header block i lbl =
                     Inr [comment, load, cmp, ''    '' @ jump @ '' '' @ lbl]))"
proof (intro conjI allI impI)
  fix out c'
  assume gen: "generate_block c block i asm = Inr (out, c')"
  have st: "stmt_at block i = SWhen" using assms(2,3) by (rule stmt_at_when)
  from gen_when_out [OF gen assms(1) st] obtain header body rest where
    h: "gen_when_header block i (else_label c) = Inr header"
    and out: "out = asm @ header @ body
                @ [''    jmp '' @ end_when_label c, else_label c @ '':''] @ rest"
    and lc: "label_count c + 2 \<le> label_count c'" by blast
  from gen_when_header_Inr(3) [OF h] obtain jump where
    j: "map_of jump_map (lexeme (block ! (i + 2))) = Some jump"
    and hd: "header =
             [[CHR 0x0A] @ ''    # Katappa: when '' @ lexeme (block ! (i + 1)) @ '' ''
                @ lexeme (block ! (i + 2)) @ '' '' @ lexeme (block ! (i + 3)) @ '' {...}'',
              ''    movq    '' @ fmt_loc (mem_location (block ! (i + 1))) @ '', %rax'',
              (if category (block ! (i + 3)) = Variable
               then ''    cmpq    '' @ fmt_loc (mem_location (block ! (i + 3))) @ '', %rax''
               else ''    cmpq    $'' @ lexeme (block ! (i + 3)) @ '', %rax''),
              ''    '' @ jump @ '' '' @ else_label c]" by blast
  from map_of_SomeD [OF j] have
    "(lexeme (block ! (i + 2)), jump) \<in>
              {(''=='', ''jne''), (''!='', ''je''), (''>'', ''jle''),
               (''<'', ''jge''), (''>='', ''jl''), (''<='', ''jg'')}"
    by (simp add: jump_map_def)
  moreover have "else_label c = ''.L_ELSE_'' @ str_nat (label_count c + 1)"
    and "end_when_label c = ''.L_END_WHEN_'' @ str_nat (label_count c + 2)"
    by (simp_all add: gul_simps)
  ultimately show "\<exists>jump body rest.
             (lexeme (block ! (i + 2)), jump) \<in>
                {(''=='', ''jne''), (''!='', ''je''), (''>'', ''jle''),
                 (''<'', ''jge''), (''>='', ''jl''), (''<='', ''jg'')}
           \<and> out = asm @
               [[CHR 0x0A] @ ''    # Katappa: when '' @ lexeme (block ! (i + 1)) @ '' ''
                  @ lexeme (block ! (i + 2)) @ '' '' @ lexeme (block ! (i + 3)) @ '' {...}'',
                ''    movq    '' @ fmt_loc (mem_location (block ! (i + 1))) @ '', %rax'',
                (if category (block ! (i + 3)) = Variable
                 then ''    cmpq    '' @ fmt_loc (mem_location (block ! (i + 3))) @ '', %rax''
                 else ''    cmpq    $'' @ lexeme (block ! (i + 3)) @ '', %rax''),
                ''    '' @ jump @ '' .L_ELSE_'' @ str_nat (label_count c + 1)]
               @ body
               @ [''    jmp .L_END_WHEN_'' @ str_nat (label_count c + 2),
                  ''.L_ELSE_'' @ str_nat (label_count c + 1) @ '':'']
               @ rest
           \<and> label_count c + 2 \<le> label_count c'"
    using out hd lc by (intro exI [of _ jump] exI [of _ body] exI [of _ rest]) simp
next
  fix jump lbl
  assume a: "i + 3 < length block
            \<and> (category (block ! (i + 3)) = Variable \<or> category (block ! (i + 3)) = NumericLiteral)
            \<and> (lexeme (block ! (i + 2)), jump) \<in>
                {(''=='', ''jne''), (''!='', ''je''), (''>'', ''jle''),
                 (''<'', ''jge''), (''>='', ''jl''), (''<='', ''jg'')}"
  then have "map_of jump_map (lexeme (block ! (i + 2))) = Some jump"
    by (auto simp: jump_map_def)
  with a show "\<exists>comment load cmp.
                   gen_when_header block i lbl =
                     Inr [comment, load, cmp, ''    '' @ jump @ '' '' @ lbl]"
    using gen_when_header_ok [of i block jump lbl] by blast
qed

lemma str_nat_small:
  "str_nat 0 = ''0''" "str_nat (Suc 0) = ''1''" "str_nat 1 = ''1''" "str_nat 2 = ''2''"
  "str_nat (Suc (Suc 0)) = ''2''" "str_nat 3 = ''3''" "str_nat 4 = ''4''"
  by code_simp+

lemma ex_when_le_run:
  "generate_block (Compiler_init []) ex_rows_when_le 0 [] =
     Inr ([[CHR 0x0A] @ ''    # Katappa: when .x <= 1 {...}'',
           ''    movq    -8(%rbp), %rax'',
           ''    cmpq    $1, %rax'',
           ''    jg .L_ELSE_1'',
           ''    jmp .L_END_WHEN_2'',
           ''.L_ELSE_1:'',
           ''.L_END_WHEN_2:''],
          (Compiler_init [])\<lparr>label_count := 2\<rparr>)"
  by code_simp

lemma when_branches_on_negation_example:
  "generate_block (Compiler_init []) ex_rows_when_le 0 [] =
     Inr ([[CHR 0x0A] @ ''    # Katappa: when .x <= 1 {...}'',
           ''    movq    -8(%rbp), %rax'',
           ''    cmpq    $1, %rax'',
           ''    jg .L_ELSE_1'',
           ''    jmp .L_END_WHEN_2'',
           ''.L_ELSE_1:'',
           ''.L_END_WHEN_2:''],
          (Compiler_init [])\<lparr>label_count := 2\<rparr>)
   \<and> (\<exists>jump body rest.
        (''<='', jump) \<in> {(''=='', ''jne''), (''!='', ''je''), (''>'', ''jle''),
                          (''<'', ''jge''), (''>='', ''jl''), (''<='', ''jg'')}
      \<and> [[CHR 0x0A] @ ''    # Katappa: when .x <= 1 {...}'',
           ''    movq    -8(%rbp), %rax'',
           ''    cmpq    $1, %rax'',
           ''    jg .L_ELSE_1'',
           ''    jmp .L_END_WHEN_2'',
           ''.L_ELSE_1:'',
           ''.L_END_WHEN_2:'']
         = [[CHR 0x0A] @ ''    # Katappa: when .x <= 1 {...}'',
            ''    movq    -8(%rbp), %rax'',
            ''    cmpq    $1, %rax'',
            ''    '' @ jump @ '' .L_ELSE_1'']
           @ body @ [''    jmp .L_END_WHEN_2'', ''.L_ELSE_1:''] @ rest)
   \<and> gen_when_header ex_rows_when_le 0 ''.L_ELSE_1'' =
       Inr [[CHR 0x0A] @ ''    # Katappa: when .x <= 1 {...}'',
            ''    movq    -8(%rbp), %rax'',
            ''    cmpq    $1, %rax'',
            ''    jg .L_ELSE_1'']"
proof -
  have len: "0 < length ex_rows_when_le"
    and cat: "category (ex_rows_when_le ! 0) = Control"
    and lx: "lexeme (ex_rows_when_le ! 0) = ''when''"
    by (simp_all add: ex_rows_when_le_def PstRow_init_def)
  note inst = when_branches_on_negation [OF len cat lx, of "Compiler_init []" "[]"]
  from inst ex_when_le_run obtain jump body rest where
    "(lexeme (ex_rows_when_le ! (0 + 2)), jump) \<in>
        {(''=='', ''jne''), (''!='', ''je''), (''>'', ''jle''),
         (''<'', ''jge''), (''>='', ''jl''), (''<='', ''jg'')}"
    and "[[CHR 0x0A] @ ''    # Katappa: when .x <= 1 {...}'',
           ''    movq    -8(%rbp), %rax'',
           ''    cmpq    $1, %rax'',
           ''    jg .L_ELSE_1'',
           ''    jmp .L_END_WHEN_2'',
           ''.L_ELSE_1:'',
           ''.L_END_WHEN_2:''] = [] @
               [[CHR 0x0A] @ ''    # Katappa: when '' @ lexeme (ex_rows_when_le ! (0 + 1)) @ '' ''
                  @ lexeme (ex_rows_when_le ! (0 + 2)) @ '' '' @ lexeme (ex_rows_when_le ! (0 + 3)) @ '' {...}'',
                ''    movq    '' @ fmt_loc (mem_location (ex_rows_when_le ! (0 + 1))) @ '', %rax'',
                (if category (ex_rows_when_le ! (0 + 3)) = Variable
                 then ''    cmpq    '' @ fmt_loc (mem_location (ex_rows_when_le ! (0 + 3))) @ '', %rax''
                 else ''    cmpq    $'' @ lexeme (ex_rows_when_le ! (0 + 3)) @ '', %rax''),
                ''    '' @ jump @ '' .L_ELSE_'' @ str_nat (label_count (Compiler_init []) + 1)]
               @ body
               @ [''    jmp .L_END_WHEN_'' @ str_nat (label_count (Compiler_init []) + 2),
                  ''.L_ELSE_'' @ str_nat (label_count (Compiler_init []) + 1) @ '':'']
               @ rest"
    by blast
  then have second: "\<exists>jump body rest.
        (''<='', jump) \<in> {(''=='', ''jne''), (''!='', ''je''), (''>'', ''jle''),
                          (''<'', ''jge''), (''>='', ''jl''), (''<='', ''jg'')}
      \<and> [[CHR 0x0A] @ ''    # Katappa: when .x <= 1 {...}'',
           ''    movq    -8(%rbp), %rax'',
           ''    cmpq    $1, %rax'',
           ''    jg .L_ELSE_1'',
           ''    jmp .L_END_WHEN_2'',
           ''.L_ELSE_1:'',
           ''.L_END_WHEN_2:'']
         = [[CHR 0x0A] @ ''    # Katappa: when .x <= 1 {...}'',
            ''    movq    -8(%rbp), %rax'',
            ''    cmpq    $1, %rax'',
            ''    '' @ jump @ '' .L_ELSE_1'']
           @ body @ [''    jmp .L_END_WHEN_2'', ''.L_ELSE_1:''] @ rest"
    by (intro exI [of _ jump] exI [of _ body] exI [of _ rest])
       (simp add: ex_rows_when_le_def PstRow_init_def Compiler_init_def fmt_loc_def str_nat_small)
  have third: "gen_when_header ex_rows_when_le 0 ''.L_ELSE_1'' =
       Inr [[CHR 0x0A] @ ''    # Katappa: when .x <= 1 {...}'',
            ''    movq    -8(%rbp), %rax'',
            ''    cmpq    $1, %rax'',
            ''    jg .L_ELSE_1'']"
    by code_simp
  from ex_when_le_run second third show ?thesis by blast
qed

text \<open>
  C1. The head of a conditional loads its first operand from the operand's storage
  location, which only a Variable has. In the source text \<^verbatim>\<open>when 1 == 2 { }\<close> the first
  operand is a literal: the line emitted for it is \<^verbatim>\<open>movq    None, %rax\<close>, the literal 1
  occurs in no instruction, and the comparison that follows compares \<^verbatim>\<open>%rax\<close> with the
  second operand alone. The second operand is emitted as an immediate when it is a
  literal; the first operand has no such case. The branch after the comparison is the
  one of the negated-branch table.
\<close>

theorem when_literal_first_operand_not_compared:
  "map_sum id fst (compile (Compiler_init ''when 1 == 2 { }'')) =
     Inr (join_lines
       [''.LC_NUM_FMT: .string '' @ [CHR 0x22] @ ''%lld'' @ [CHR 0x5C] @ ''n'' @ [CHR 0x22],
        ''.section .text'', ''.globl main'', [CHR 0x0A] @ ''main:'', ''    pushq   %rbp'',
        ''    movq    %rsp, %rbp'', [],
        [CHR 0x0A] @ ''    # Katappa: when 1 == 2 {...}'',
        ''    movq    None, %rax'',
        ''    cmpq    $2, %rax'',
        ''    jne .L_ELSE_1'',
        ''    jmp .L_END_WHEN_2'',
        ''.L_ELSE_1:'',
        ''.L_END_WHEN_2:'',
        [CHR 0x0A] @ ''    movq    $0, %rax'', ''    leave'', ''    ret''] @ [CHR 0x0A])"
  by code_simp

text \<open>
  C9. A \<^verbatim>\<open>when\<close> whose first operand has no storage location (the field is \<^verbatim>\<open>None\<close>, as
  for a numeric literal), with a Variable or NumericLiteral as second operand and one of
  the six comparators: the head of the conditional raises nothing, and its load line is
  \<^verbatim>\<open>movq    None, %rax\<close>. Whenever the generator succeeds on the block, that line is in
  its output, right after the comment of the conditional.
\<close>

theorem when_unresolved_operand_emits_None:
  assumes "i + 3 < length block"
    and "category (block ! i) = Control" and "lexeme (block ! i) = ''when''"
    and "mem_location (block ! (i + 1)) = None"
    and "category (block ! (i + 3)) = Variable \<or> category (block ! (i + 3)) = NumericLiteral"
    and "map_of jump_map (lexeme (block ! (i + 2))) = Some jump"
  shows "gen_when_header block i lbl =
           Inr [[CHR 0x0A] @ ''    # Katappa: when '' @ lexeme (block ! (i + 1)) @ '' ''
                  @ lexeme (block ! (i + 2)) @ '' '' @ lexeme (block ! (i + 3)) @ '' {...}'',
                ''    movq    None, %rax'',
                (if category (block ! (i + 3)) = Variable
                 then ''    cmpq    '' @ fmt_loc (mem_location (block ! (i + 3))) @ '', %rax''
                 else ''    cmpq    $'' @ lexeme (block ! (i + 3)) @ '', %rax''),
                ''    '' @ jump @ '' '' @ lbl]
       \<and> (\<forall>out c'. generate_block c block i asm = Inr (out, c') \<longrightarrow>
            (\<exists>rest. out = asm @
               [[CHR 0x0A] @ ''    # Katappa: when '' @ lexeme (block ! (i + 1)) @ '' ''
                  @ lexeme (block ! (i + 2)) @ '' '' @ lexeme (block ! (i + 3)) @ '' {...}'',
                ''    movq    None, %rax''] @ rest))"
proof (intro conjI allI impI)
  have hd: "gen_when_header block i lbl =
           Inr [[CHR 0x0A] @ ''    # Katappa: when '' @ lexeme (block ! (i + 1)) @ '' ''
                  @ lexeme (block ! (i + 2)) @ '' '' @ lexeme (block ! (i + 3)) @ '' {...}'',
                ''    movq    None, %rax'',
                (if category (block ! (i + 3)) = Variable
                 then ''    cmpq    '' @ fmt_loc (mem_location (block ! (i + 3))) @ '', %rax''
                 else ''    cmpq    $'' @ lexeme (block ! (i + 3)) @ '', %rax''),
                ''    '' @ jump @ '' '' @ lbl]" for lbl
    using gen_when_header_ok [OF assms(1,5,6), of lbl] assms(4) by (simp add: fmt_loc_def)
  show "gen_when_header block i lbl =
           Inr [[CHR 0x0A] @ ''    # Katappa: when '' @ lexeme (block ! (i + 1)) @ '' ''
                  @ lexeme (block ! (i + 2)) @ '' '' @ lexeme (block ! (i + 3)) @ '' {...}'',
                ''    movq    None, %rax'',
                (if category (block ! (i + 3)) = Variable
                 then ''    cmpq    '' @ fmt_loc (mem_location (block ! (i + 3))) @ '', %rax''
                 else ''    cmpq    $'' @ lexeme (block ! (i + 3)) @ '', %rax''),
                ''    '' @ jump @ '' '' @ lbl]" by (rule hd)
  fix out c'
  assume gen: "generate_block c block i asm = Inr (out, c')"
  have st: "stmt_at block i = SWhen" using assms(2,3) by (rule stmt_at_when)
  have len: "i < length block" using assms(1) by simp
  from gen_when_out [OF gen len st] obtain header body rest where
    h: "gen_when_header block i (else_label c) = Inr header"
    and out: "out = asm @ header @ body
                @ [''    jmp '' @ end_when_label c, else_label c @ '':''] @ rest"
    by blast
  from h hd [of "else_label c"] out
  show "\<exists>rest. out = asm @
               [[CHR 0x0A] @ ''    # Katappa: when '' @ lexeme (block ! (i + 1)) @ '' ''
                  @ lexeme (block ! (i + 2)) @ '' '' @ lexeme (block ! (i + 3)) @ '' {...}'',
                ''    movq    None, %rax''] @ rest"
    by auto
qed

lemma ex_when_5_run:
  "generate_block (Compiler_init []) ex_rows_when_5 0 [] =
     Inr ([[CHR 0x0A] @ ''    # Katappa: when 5 == .x {...}'',
           ''    movq    None, %rax'',
           ''    cmpq    -8(%rbp), %rax'',
           ''    jne .L_ELSE_1'',
           ''    jmp .L_END_WHEN_2'',
           ''.L_ELSE_1:'',
           ''.L_END_WHEN_2:''],
          (Compiler_init [])\<lparr>label_count := 2\<rparr>)"
  by code_simp

theorem when_unresolved_operand_emits_None_witness:
  "gen_when_header ex_rows_when_5 0 ''.L_ELSE_1'' =
     Inr [[CHR 0x0A] @ ''    # Katappa: when 5 == .x {...}'',
          ''    movq    None, %rax'',
          ''    cmpq    -8(%rbp), %rax'',
          ''    jne .L_ELSE_1'']
   \<and> generate_block (Compiler_init []) ex_rows_when_5 0 [] =
     Inr ([[CHR 0x0A] @ ''    # Katappa: when 5 == .x {...}'',
           ''    movq    None, %rax'',
           ''    cmpq    -8(%rbp), %rax'',
           ''    jne .L_ELSE_1'',
           ''    jmp .L_END_WHEN_2'',
           ''.L_ELSE_1:'',
           ''.L_END_WHEN_2:''],
          (Compiler_init [])\<lparr>label_count := 2\<rparr>)"
proof -
  have "gen_when_header ex_rows_when_5 0 ''.L_ELSE_1'' =
     Inr [[CHR 0x0A] @ ''    # Katappa: when 5 == .x {...}'',
          ''    movq    None, %rax'',
          ''    cmpq    -8(%rbp), %rax'',
          ''    jne .L_ELSE_1'']"
    using when_unresolved_operand_emits_None
            [of 0 ex_rows_when_5 "''jne''" "''.L_ELSE_1''" "Compiler_init []" "[]"]
    by (simp add: ex_rows_when_5_def PstRow_init_def jump_map_def fmt_loc_def)
  with ex_when_5_run show ?thesis by blast
qed

text \<open>The same conditional in a source text: the placeholder reaches the assembly file.\<close>

lemma ex_when_5_compile:
  "map_sum id fst (compile (Compiler_init ''let .x : num ; when 5 == .x { }'')) =
     Inr (join_lines
       [''.LC_NUM_FMT: .string '' @ [CHR 0x22] @ ''%lld'' @ [CHR 0x5C] @ ''n'' @ [CHR 0x22],
        ''.section .text'', ''.globl main'', [CHR 0x0A] @ ''main:'', ''    pushq   %rbp'',
        ''    movq    %rsp, %rbp'', ''    subq    $16, %rsp'',
        [CHR 0x0A] @ ''    # Katappa: when 5 == .x {...}'',
        ''    movq    None, %rax'',
        ''    cmpq    -8(%rbp), %rax'',
        ''    jne .L_ELSE_1'',
        ''    jmp .L_END_WHEN_2'',
        ''.L_ELSE_1:'',
        ''.L_END_WHEN_2:'',
        [CHR 0x0A] @ ''    movq    $0, %rax'', ''    leave'', ''    ret''] @ [CHR 0x0A])"
  by code_simp

section \<open>Assignments\<close>

text \<open>
  C2. The assignment branch checks the right-hand side only when it starts with a
  Variable: then an Operator and a Variable or NumericLiteral operand must follow, the
  arithmetic is emitted, and anything else raises an error. When the right-hand side
  starts with a numeric literal, the literal is stored and generation resumes at the
  next token without looking at it. So \<^verbatim>\<open>.x = 5 5 ;\<close>, which is neither a single literal
  nor \<^verbatim>\<open>operand operator operand\<close>, compiles instead of failing, and \<^verbatim>\<open>.x = 5 + .x ;\<close>,
  which is \<^verbatim>\<open>operand operator operand\<close>, compiles to the store of 5 alone: both give the
  same output. The sibling \<^verbatim>\<open>.x = .x + 5 ;\<close> gives the load, the addition and the store.
\<close>

theorem assignment_literal_first_compiles:
  "map_sum id fst (compile (Compiler_init ''let .x : num ; .x = 5 5 ;'')) =
     Inr (join_lines
       [''.LC_NUM_FMT: .string '' @ [CHR 0x22] @ ''%lld'' @ [CHR 0x5C] @ ''n'' @ [CHR 0x22],
        ''.section .text'', ''.globl main'', [CHR 0x0A] @ ''main:'', ''    pushq   %rbp'',
        ''    movq    %rsp, %rbp'', ''    subq    $16, %rsp'',
        [CHR 0x0A] @ ''    # Katappa: .x = ...'',
        ''    movq    $5, -8(%rbp)'',
        [CHR 0x0A] @ ''    movq    $0, %rax'', ''    leave'', ''    ret''] @ [CHR 0x0A])
   \<and> map_sum id fst (compile (Compiler_init ''let .x : num ; .x = 5 + .x ;'')) =
     Inr (join_lines
       [''.LC_NUM_FMT: .string '' @ [CHR 0x22] @ ''%lld'' @ [CHR 0x5C] @ ''n'' @ [CHR 0x22],
        ''.section .text'', ''.globl main'', [CHR 0x0A] @ ''main:'', ''    pushq   %rbp'',
        ''    movq    %rsp, %rbp'', ''    subq    $16, %rsp'',
        [CHR 0x0A] @ ''    # Katappa: .x = ...'',
        ''    movq    $5, -8(%rbp)'',
        [CHR 0x0A] @ ''    movq    $0, %rax'', ''    leave'', ''    ret''] @ [CHR 0x0A])
   \<and> map_sum id fst (compile (Compiler_init ''let .x : num ; .x = .x + 5 ;'')) =
     Inr (join_lines
       [''.LC_NUM_FMT: .string '' @ [CHR 0x22] @ ''%lld'' @ [CHR 0x5C] @ ''n'' @ [CHR 0x22],
        ''.section .text'', ''.globl main'', [CHR 0x0A] @ ''main:'', ''    pushq   %rbp'',
        ''    movq    %rsp, %rbp'', ''    subq    $16, %rsp'',
        [CHR 0x0A] @ ''    # Katappa: .x = ...'',
        ''    movq    -8(%rbp), %rax'',
        ''    addq   $5, %rax'',
        ''    movq    %rax, -8(%rbp)'',
        [CHR 0x0A] @ ''    movq    $0, %rax'', ''    leave'', ''    ret''] @ [CHR 0x0A])"
  by code_simp

section \<open>Reasoning about the analysis\<close>

subsection \<open>The stages of a successful run\<close>

lemma compile_InrE:
  assumes "compile c = Inr (out, c')"
  obtains c1 c2 c3 text_section where
    "stage1_tokenize c = Inr c1" "stage2_categorize c1 = Inr c2" "stage3_analyze c2 = Inr c3"
    "generate_block c3 (pst c3) 0 [] = Inr (text_section, c')"
    "out = join_lines (data_section c3 @ main_prologue c' @ text_section @ main_epilogue)
             @ [CHR 0x0A]"
  using assms
  by (auto simp: compile_def generate_toplevel_assembly_def split: sum.splits prod.splits)

lemma stage1_fields:
  assumes "stage1_tokenize c = Inr c1"
  shows "c1 = c\<lparr>tokens := tokens c1\<rparr>"
  using assms by (auto simp: stage1_tokenize_def split: sum.splits)

lemma stage2_fields:
  assumes "stage2_categorize c1 = Inr c2"
  shows "c2 = c1\<lparr>pst := pst c2\<rparr>"
  using assms by (auto simp: stage2_categorize_def split: sum.splits)

lemma stage3_loop_unfold:
  "stage3_loop c i =
     (if \<not> i < length (pst c) then Inr c
      else if category (pst c ! i) = Mutability then
          (case slice (pst c) (i + 1) (i + 5) of
             [var, colon, type_kw, semi] \<Rightarrow>
               if \<not> (category var = Variable \<and> lexeme colon = '':''
                      \<and> category type_kw = Type \<and> lexeme semi = '';'') then
                 Inl (CompilationError ''Invalid variable declaration.'' (line (pst c ! i)))
               else if map_of (symbol_table c) (lexeme var) \<noteq> None then
                 Inl (CompilationError
                   (''Variable '' @ [CHR 0x27] @ lexeme var @ [CHR 0x27] @ '' already declared.'')
                   (line var))
               else
                 stage3_loop
                      (c\<lparr>stack_size := stack_size c + 8,
                         pst := (pst c)[i + 1 := var\<lparr>mem_location :=
                                   Some (''-'' @ str_nat (stack_size c + 8) @ ''(%rbp)'')\<rparr>],
                         symbol_table := AList.update (lexeme var)
                            (var\<lparr>mem_location :=
                                   Some (''-'' @ str_nat (stack_size c + 8) @ ''(%rbp)'')\<rparr>)
                            (symbol_table c)\<rparr>)
                      (i + 4 + 1)
           | _ \<Rightarrow> Inl (CompilationError ''Incomplete variable declaration.'' (line (pst c ! i))))
        else if category (pst c ! i) = StringLiteral then
          (if map_of (string_literals c) (lexeme (pst c ! i)) = None then
             stage3_loop
               (c\<lparr>label_count := label_count c + 1,
                  string_literals :=
                     AList.update (lexeme (pst c ! i))
                       (''.L_STR_'' @ str_nat (label_count c + 1))
                       (string_literals c)\<rparr>)
               (i + 1)
           else stage3_loop c (i + 1))
        else if category (pst c ! i) = Variable then
          (case map_of (symbol_table c) (lexeme (pst c ! i)) of
             None \<Rightarrow>
               Inl (CompilationError
                 (''Use of undeclared variable '' @ [CHR 0x27] @ lexeme (pst c ! i) @ [CHR 0x27])
                 (line (pst c ! i)))
           | Some entry \<Rightarrow>
               stage3_loop
                 (c\<lparr>pst := (pst c)[i := (pst c ! i)\<lparr>mem_location := mem_location entry\<rparr>]\<rparr>)
                 (i + 1))
        else stage3_loop c (i + 1))"
  by (subst stage3_loop.simps)
     (auto simp: Let_def get_unique_label_def split: list.splits)


lemma slice4D:
  assumes "slice xs (i + 1) (i + 5) = [a, b, c, d]"
  shows "i + 4 < length xs" "a = xs ! (i + 1)" "b = xs ! (i + 2)" "c = xs ! (i + 3)"
    "d = xs ! (i + 4)"
proof -
  from assms have t: "take 4 (drop (i + 1) xs) = [a, b, c, d]" by (simp add: slice_def)
  then have "length (take 4 (drop (i + 1) xs)) = 4" by simp
  then show len: "i + 4 < length xs" by (simp add: min_def split: if_splits)
  have nth: "[a, b, c, d] ! k = xs ! (i + 1 + k)" if "k < 4" for k
    unfolding t [symmetric] using that len by simp
  from nth [of 0] show "a = xs ! (i + 1)" by simp
  from nth [of 1] show "b = xs ! (i + 2)" by (simp add: eval_nat_numeral)
  from nth [of 2] show "c = xs ! (i + 3)" by (simp add: eval_nat_numeral)
  from nth [of 3] show "d = xs ! (i + 4)" by (simp add: eval_nat_numeral)
qed

text \<open>A property of the compiler object that every step of the analysis keeps.\<close>

lemma stage3_loop_invariant [consumes 2, case_names Decl Str Var]:
  assumes run: "stage3_loop c i = Inr c'" and start: "Q c"
    and Decl: "\<And>c i var colon type_kw semi.
        Q c \<Longrightarrow> i < length (pst c) \<Longrightarrow> category (pst c ! i) = Mutability \<Longrightarrow>
        slice (pst c) (i + 1) (i + 5) = [var, colon, type_kw, semi] \<Longrightarrow>
        category var = Variable \<Longrightarrow> lexeme colon = '':'' \<Longrightarrow> category type_kw = Type \<Longrightarrow>
        lexeme semi = '';'' \<Longrightarrow> map_of (symbol_table c) (lexeme var) = None \<Longrightarrow>
        Q (c\<lparr>stack_size := stack_size c + 8,
             pst := (pst c)[i + 1 := var\<lparr>mem_location :=
                       Some (''-'' @ str_nat (stack_size c + 8) @ ''(%rbp)'')\<rparr>],
             symbol_table := AList.update (lexeme var)
                (var\<lparr>mem_location := Some (''-'' @ str_nat (stack_size c + 8) @ ''(%rbp)'')\<rparr>)
                (symbol_table c)\<rparr>)"
    and Str: "\<And>c i. Q c \<Longrightarrow> i < length (pst c) \<Longrightarrow> category (pst c ! i) = StringLiteral \<Longrightarrow>
        map_of (string_literals c) (lexeme (pst c ! i)) = None \<Longrightarrow>
        Q (c\<lparr>label_count := label_count c + 1,
             string_literals :=
               AList.update (lexeme (pst c ! i)) (''.L_STR_'' @ str_nat (label_count c + 1))
                 (string_literals c)\<rparr>)"
    and Var: "\<And>c i entry. Q c \<Longrightarrow> i < length (pst c) \<Longrightarrow> category (pst c ! i) = Variable \<Longrightarrow>
        map_of (symbol_table c) (lexeme (pst c ! i)) = Some entry \<Longrightarrow>
        Q (c\<lparr>pst := (pst c)[i := (pst c ! i)\<lparr>mem_location := mem_location entry\<rparr>]\<rparr>)"
  shows "Q c'"
  using run start
proof (induction "length (pst c) - i" arbitrary: c i rule: less_induct)
  case less
  note unf = stage3_loop_unfold [of c i]
  show ?case
  proof (cases "i < length (pst c)")
    case False
    with less.prems unf show ?thesis by simp
  next
    case len: True
    show ?thesis
    proof (cases "category (pst c ! i) = Mutability")
      case mut: True
      from less.prems(1) unf len mut obtain var colon type_kw semi where
        sl: "slice (pst c) (i + 1) (i + 5) = [var, colon, type_kw, semi]"
        by (auto split: list.splits)
      from less.prems(1) unf len mut sl have
        ok: "category var = Variable \<and> lexeme colon = '':''
                      \<and> category type_kw = Type \<and> lexeme semi = '';''"
        and fresh: "map_of (symbol_table c) (lexeme var) = None"
        by (auto split: if_splits)
      let ?c = "c\<lparr>stack_size := stack_size c + 8,
             pst := (pst c)[i + 1 := var\<lparr>mem_location :=
                       Some (''-'' @ str_nat (stack_size c + 8) @ ''(%rbp)'')\<rparr>],
             symbol_table := AList.update (lexeme var)
                (var\<lparr>mem_location := Some (''-'' @ str_nat (stack_size c + 8) @ ''(%rbp)'')\<rparr>)
                (symbol_table c)\<rparr>"
      from less.prems(1) unf len mut sl ok fresh have next_run: "stage3_loop ?c (i + 4 + 1) = Inr c'"
        by simp
      have q: "Q ?c" using Decl [OF less.prems(2) len mut sl] ok fresh by blast
      have "length (pst ?c) - (i + 4 + 1) < length (pst c) - i" using len by simp
      from less.hyps [OF this next_run q] show ?thesis .
    next
      case nmut: False
      show ?thesis
      proof (cases "category (pst c ! i) = StringLiteral")
        case str: True
        show ?thesis
        proof (cases "map_of (string_literals c) (lexeme (pst c ! i)) = None")
          case new: True
          let ?c = "c\<lparr>label_count := label_count c + 1,
             string_literals :=
               AList.update (lexeme (pst c ! i)) (''.L_STR_'' @ str_nat (label_count c + 1))
                 (string_literals c)\<rparr>"
          from less.prems(1) unf len nmut str new have next_run: "stage3_loop ?c (i + 1) = Inr c'"
            by simp
          have q: "Q ?c" by (rule Str [OF less.prems(2) len str new])
          have "length (pst ?c) - (i + 1) < length (pst c) - i" using len by simp
          from less.hyps [OF this next_run q] show ?thesis .
        next
          case old: False
          from less.prems(1) unf len nmut str old have next_run: "stage3_loop c (i + 1) = Inr c'"
            by simp
          have "length (pst c) - (i + 1) < length (pst c) - i" using len by simp
          from less.hyps [OF this next_run less.prems(2)] show ?thesis .
        qed
      next
        case nstr: False
        show ?thesis
        proof (cases "category (pst c ! i) = Variable")
          case var: True
          from less.prems(1) unf len nmut nstr var obtain entry where
            e: "map_of (symbol_table c) (lexeme (pst c ! i)) = Some entry"
            by (auto split: option.splits)
          let ?c = "c\<lparr>pst := (pst c)[i := (pst c ! i)\<lparr>mem_location := mem_location entry\<rparr>]\<rparr>"
          from less.prems(1) unf len nmut nstr var e have next_run: "stage3_loop ?c (i + 1) = Inr c'"
            by simp
          have q: "Q ?c" by (rule Var [OF less.prems(2) len var e])
          have "length (pst ?c) - (i + 1) < length (pst c) - i" using len by simp
          from less.hyps [OF this next_run q] show ?thesis .
        next
          case nvar: False
          from less.prems(1) unf len nmut nstr nvar have next_run: "stage3_loop c (i + 1) = Inr c'"
            by simp
          have "length (pst c) - (i + 1) < length (pst c) - i" using len by simp
          from less.hyps [OF this next_run less.prems(2)] show ?thesis .
        qed
      qed
    qed
  qed
qed


lemma map_update_same:
  "f y = f (xs ! k) \<Longrightarrow> map f (xs[k := y]) = map f xs"
  by (cases "k < length xs") (simp_all add: map_update list_update_same_conv list_update_beyond)

lemma stage3_loop_keeps:
  assumes "stage3_loop c i = Inr c'"
  shows "map category (pst c') = map category (pst c)"
    and "map lexeme (pst c') = map lexeme (pst c)"
    and "loop_end_stack c' = loop_end_stack c"
proof -
  have "map category (pst c') = map category (pst c) \<and> map lexeme (pst c') = map lexeme (pst c)
        \<and> loop_end_stack c' = loop_end_stack c"
  proof (rule stage3_loop_invariant
      [where Q = "\<lambda>x. map category (pst x) = map category (pst c)
                     \<and> map lexeme (pst x) = map lexeme (pst c)
                     \<and> loop_end_stack x = loop_end_stack c", OF assms], goal_cases)
    case 1
    show ?case by simp
  next
    case (2 c i var colon type_kw semi)
    from slice4D(2) [OF 2(4)] 2(1) show ?case
      by (simp add: map_update_same)
  next
    case (3 c i)
    then show ?case by simp
  next
    case (4 c i entry)
    then show ?case by (simp add: map_update_same)
  qed
  then show "map category (pst c') = map category (pst c)"
    and "map lexeme (pst c') = map lexeme (pst c)"
    and "loop_end_stack c' = loop_end_stack c" by simp_all
qed

lemma stage3_loop_no_declaration:
  assumes "stage3_loop c i = Inr c'" and "\<forall>r\<in>set (pst c). category r \<noteq> Mutability"
  shows "stack_size c' = stack_size c"
proof -
  have "stack_size c' = stack_size c \<and> (\<forall>r\<in>set (pst c'). category r \<noteq> Mutability)"
  proof (rule stage3_loop_invariant
      [where Q = "\<lambda>x. stack_size x = stack_size c \<and> (\<forall>r\<in>set (pst x). category r \<noteq> Mutability)",
       OF assms(1)], goal_cases)
    case 1
    show ?case by (simp add: assms(2))
  next
    case (2 c i var colon type_kw semi)
    then show ?case by (metis nth_mem)
  next
    case (3 c i)
    then show ?case by simp
  next
    case (4 c i entry)
    have "set ((pst c)[i := (pst c ! i)\<lparr>mem_location := mem_location entry\<rparr>])
            \<subseteq> insert ((pst c ! i)\<lparr>mem_location := mem_location entry\<rparr>) (set (pst c))"
      by (rule set_update_subset_insert)
    with 4 show ?case by auto
  qed
  then show ?thesis by simp
qed

lemma round_stack_mod: "stack_size (round_stack c) mod 16 = 0"
proof -
  have "(n + (16 - n mod 16)) mod 16 = 0" for n :: nat
    by presburger
  then show ?thesis by (simp add: round_stack_def)
qed

lemma round_stack_fields:
  "round_stack c = c\<lparr>stack_size := stack_size (round_stack c)\<rparr>"
  by (simp add: round_stack_def)

lemma stage3_analyzeE:
  assumes "stage3_analyze c = Inr c'"
  obtains c'' where "stage3_loop c 0 = Inr c''" "c' = round_stack c''"
  using assms by (auto simp: stage3_analyze_def split: sum.splits)

lemma only_labels_fields:
  assumes "only_labels c c'"
  shows "pst c' = pst c" "stack_size c' = stack_size c" "string_literals c' = string_literals c"
    "loop_end_stack c' = loop_end_stack c" "symbol_table c' = symbol_table c"
    "label_count c \<le> label_count c'"
proof -
  from assms have eq: "c' = c\<lparr>label_count := label_count c'\<rparr>"
    and le: "label_count c \<le> label_count c'" by (simp_all add: only_labels_def)
  show "label_count c \<le> label_count c'" by (rule le)
  show "pst c' = pst c" by (subst eq) simp
  show "stack_size c' = stack_size c" by (subst eq) simp
  show "string_literals c' = string_literals c" by (subst eq) simp
  show "loop_end_stack c' = loop_end_stack c" by (subst eq) simp
  show "symbol_table c' = symbol_table c" by (subst eq) simp
qed

section \<open>The stack frame\<close>

text \<open>
  C5. When a fresh compiler compiles a source text, the frame size it ends with is a
  multiple of 16; it is 0 when no row of the table is a declaration keyword (category
  Mutability); and the output is the data section, then the prologue of \<^verbatim>\<open>main\<close>, whose
  last line subtracts exactly the frame size from \<^verbatim>\<open>%rsp\<close> (and is empty when the frame
  size is 0), then the generated statements and the epilogue.
\<close>

theorem frame_size_multiple_of_16:
  assumes "compile (Compiler_init src) = Inr (out, c')"
  shows "stack_size c' mod 16 = 0
       \<and> ((\<forall>r\<in>set (pst c'). category r \<noteq> Mutability) \<longrightarrow> stack_size c' = 0)
       \<and> (\<exists>text_section.
            out = join_lines
                    (data_section c'
                     @ [''.section .text'', ''.globl main'', [CHR 0x0A] @ ''main:'',
                        ''    pushq   %rbp'', ''    movq    %rsp, %rbp'',
                        (if stack_size c' > 0
                         then ''    subq    $'' @ str_nat (stack_size c') @ '', %rsp''
                         else [])]
                     @ text_section @ main_epilogue) @ [CHR 0x0A])"
proof -
  from assms obtain c1 c2 c3 text_section where
    s1: "stage1_tokenize (Compiler_init src) = Inr c1"
    and s2: "stage2_categorize c1 = Inr c2"
    and s3: "stage3_analyze c2 = Inr c3"
    and gen: "generate_block c3 (pst c3) 0 [] = Inr (text_section, c')"
    and out: "out = join_lines (data_section c3 @ main_prologue c' @ text_section @ main_epilogue)
                @ [CHR 0x0A]"
    by (rule compile_InrE)
  from s3 obtain c3' where loop: "stage3_loop c2 0 = Inr c3'" and c3: "c3 = round_stack c3'"
    by (rule stage3_analyzeE)
  note fr = only_labels_fields [OF generate_block_frame [OF gen]]
  have "stack_size c1 = 0" by (subst stage1_fields [OF s1]) (simp add: Compiler_init_def)
  then have stack0: "stack_size c2 = 0" by (subst stage2_fields [OF s2]) simp
  have a: "stack_size c' mod 16 = 0"
    using fr(2) c3 round_stack_mod by simp
  have b: "stack_size c' = 0" if nd: "\<forall>r\<in>set (pst c'). category r \<noteq> Mutability"
  proof -
    have "pst c3 = pst c3'" by (subst c3, subst round_stack_fields) simp
    with fr(1) have "map category (pst c') = map category (pst c2)"
      using stage3_loop_keeps(1) [OF loop] by simp
    then have "category ` set (pst c') = category ` set (pst c2)"
      by (metis set_map)
    with nd have "\<forall>r\<in>set (pst c2). category r \<noteq> Mutability"
      by (metis imageE imageI)
    from stage3_loop_no_declaration [OF loop this] stack0 have "stack_size c3' = 0" by simp
    then have "stack_size c3 = 0" by (simp add: c3 round_stack_def)
    with fr(2) show ?thesis by simp
  qed
  have d: "data_section c3 = data_section c'"
    using fr(3) by (simp add: data_section_def)
  have c: "out = join_lines
                    (data_section c'
                     @ [''.section .text'', ''.globl main'', [CHR 0x0A] @ ''main:'',
                        ''    pushq   %rbp'', ''    movq    %rsp, %rbp'',
                        (if stack_size c' > 0
                         then ''    subq    $'' @ str_nat (stack_size c') @ '', %rsp''
                         else [])]
                     @ text_section @ main_epilogue) @ [CHR 0x0A]"
    unfolding out d main_prologue_def by simp
  from a b c show ?thesis by blast
qed


lemma ex_one_declaration_run:
  "compile (Compiler_init ''let .x : num ;'') =
     Inr (join_lines
       [''.LC_NUM_FMT: .string '' @ [CHR 0x22] @ ''%lld'' @ [CHR 0x5C] @ ''n'' @ [CHR 0x22],
        ''.section .text'', ''.globl main'', [CHR 0x0A] @ ''main:'', ''    pushq   %rbp'',
        ''    movq    %rsp, %rbp'', ''    subq    $16, %rsp'',
        [CHR 0x0A] @ ''    movq    $0, %rax'', ''    leave'', ''    ret''] @ [CHR 0x0A],
       (Compiler_init ''let .x : num ;'')
         \<lparr>tokens := [(''let'', 1), (''.x'', 1), ('':'', 1), (''num'', 1), ('';'', 1)],
          pst := [PstRow_init ''let'' Mutability 1,
                  (PstRow_init ''.x'' Variable 1)\<lparr>mem_location := Some ''-8(%rbp)''\<rparr>,
                  PstRow_init '':'' Delimiter 1, PstRow_init ''num'' Type 1,
                  PstRow_init '';'' Delimiter 1],
          symbol_table :=
            [(''.x'', (PstRow_init ''.x'' Variable 1)\<lparr>mem_location := Some ''-8(%rbp)''\<rparr>)],
          stack_size := 16\<rparr>)"
  by code_simp

lemma ex_no_declaration_run:
  "compile (Compiler_init '';'') =
     Inr (join_lines
       [''.LC_NUM_FMT: .string '' @ [CHR 0x22] @ ''%lld'' @ [CHR 0x5C] @ ''n'' @ [CHR 0x22],
        ''.section .text'', ''.globl main'', [CHR 0x0A] @ ''main:'', ''    pushq   %rbp'',
        ''    movq    %rsp, %rbp'', [],
        [CHR 0x0A] @ ''    movq    $0, %rax'', ''    leave'', ''    ret''] @ [CHR 0x0A],
       (Compiler_init '';'')
         \<lparr>tokens := [('';'', 1)], pst := [PstRow_init '';'' Delimiter 1]\<rparr>)"
  by code_simp

text \<open>
  One declaration gives a frame of 16 bytes, reserved by \<^verbatim>\<open>subq    $16, %rsp\<close>; no
  declaration gives a frame of 0 bytes.
\<close>

theorem frame_size_multiple_of_16_witness:
  "(\<exists>out c'. compile (Compiler_init ''let .x : num ;'') = Inr (out, c')
      \<and> stack_size c' = 16 \<and> stack_size c' mod 16 = 0
      \<and> (\<exists>text_section.
            out = join_lines
                    (data_section c'
                     @ [''.section .text'', ''.globl main'', [CHR 0x0A] @ ''main:'',
                        ''    pushq   %rbp'', ''    movq    %rsp, %rbp'',
                        ''    subq    $16, %rsp'']
                     @ text_section @ main_epilogue) @ [CHR 0x0A]))
   \<and> (\<exists>out c'. compile (Compiler_init '';'') = Inr (out, c')
      \<and> set (map category (pst c')) = {Delimiter} \<and> stack_size c' = 0)"
proof -
  let ?C = "(Compiler_init ''let .x : num ;'')
         \<lparr>tokens := [(''let'', 1), (''.x'', 1), ('':'', 1), (''num'', 1), ('';'', 1)],
          pst := [PstRow_init ''let'' Mutability 1,
                  (PstRow_init ''.x'' Variable 1)\<lparr>mem_location := Some ''-8(%rbp)''\<rparr>,
                  PstRow_init '':'' Delimiter 1, PstRow_init ''num'' Type 1,
                  PstRow_init '';'' Delimiter 1],
          symbol_table :=
            [(''.x'', (PstRow_init ''.x'' Variable 1)\<lparr>mem_location := Some ''-8(%rbp)''\<rparr>)],
          stack_size := 16\<rparr>"
  let ?D = "(Compiler_init '';'')
         \<lparr>tokens := [('';'', 1)], pst := [PstRow_init '';'' Delimiter 1]\<rparr>"
  note one = frame_size_multiple_of_16 [OF ex_one_declaration_run]
  have ss: "stack_size ?C = 16" by simp
  have line: "(if stack_size ?C > 0
               then ''    subq    $'' @ str_nat (stack_size ?C) @ '', %rsp'' else [])
              = ''    subq    $16, %rsp''"
    unfolding ss by code_simp
  note third = one [THEN conjunct2, THEN conjunct2, unfolded line]
  have first: "\<exists>out c'. compile (Compiler_init ''let .x : num ;'') = Inr (out, c')
      \<and> stack_size c' = 16 \<and> stack_size c' mod 16 = 0
      \<and> (\<exists>text_section.
            out = join_lines
                    (data_section c'
                     @ [''.section .text'', ''.globl main'', [CHR 0x0A] @ ''main:'',
                        ''    pushq   %rbp'', ''    movq    %rsp, %rbp'',
                        ''    subq    $16, %rsp'']
                     @ text_section @ main_epilogue) @ [CHR 0x0A])"
    by (rule exI, rule exI [of _ ?C])
       (intro conjI, rule ex_one_declaration_run, rule ss, rule one [THEN conjunct1], rule third)
  note none = frame_size_multiple_of_16 [OF ex_no_declaration_run]
  have cats: "set (map category (pst ?D)) = {Delimiter}"
    by (simp add: PstRow_init_def)
  have nodecl: "\<forall>r\<in>set (pst ?D). category r \<noteq> Mutability"
    by (simp add: PstRow_init_def)
  have zero: "stack_size ?D = 0"
    using none [THEN conjunct2, THEN conjunct1] nodecl by blast
  have second: "\<exists>out c'. compile (Compiler_init '';'') = Inr (out, c')
      \<and> set (map category (pst c')) = {Delimiter} \<and> stack_size c' = 0"
    by (rule exI, rule exI [of _ ?D])
       (intro conjI, rule ex_no_declaration_run, rule cats, rule zero)
  from first second show ?thesis by blast
qed

section \<open>The data section\<close>








section \<open>The control flow of the generator\<close>







section \<open>The errors of the generator\<close>













section \<open>The loop-label stack\<close>



lemma calls_continues:
  assumes "calls (c, block, i, asm) p (c', block', i', asm')" and "length block' = length block"
  shows "generate_block c block i asm = generate_block c' block' i' asm'"
  using assms
proof (cases rule: calls.cases)
  case (WhenBody header j)
  with assms(2) show ?thesis by (simp add: slice_def)
next
  case (OtherBody header j when_asm k)
  with assms(2) show ?thesis by (simp add: slice_def)
next
  case (LoopBody j)
  with assms(2) show ?thesis by (simp add: slice_def)
next
  case (WhenNext header when_asm)
  then show ?thesis by (simp add: gen_when) blast
qed (simp_all add: gen_decl gen_assign gen_print_step gen_when gen_loop gen_stop gen_skip)










section \<open>The errors of a compilation\<close>









end
